theory Spec2Isabelle
  imports Complex_Main
begin

section \<open>JavaScript numbers\<close>

text \<open>
  Every amount of the program (price, stock, quantity, total) is a JavaScript \<^verbatim>\<open>Number\<close>,
  an IEEE 754 double: the schemas declare \<^verbatim>\<open>Number\<close> and constrain only the minimum, so
  fractions are admitted. A finite double is modelled as the rational it denotes. The
  comparisons of the program are exact; its additions (\<^verbatim>\<open>+=\<close>, \<^verbatim>\<open>$inc\<close>) and its
  multiplication give the exact result rounded to the nearest double, ties to the even
  significand. The values \<^verbatim>\<open>Infinity\<close> and \<^verbatim>\<open>NaN\<close> are not modelled: a result whose
  magnitude exceeds the largest finite double is outside the model.
\<close>

text \<open>The number of binary digits of a positive integer.\<close>

function bits :: "int \<Rightarrow> nat" where
  "bits n = (if n \<le> 0 then 0 else Suc (bits (n div 2)))"
  by pat_completeness auto
termination
  by (relation "measure nat") auto

declare bits.simps [simp del]

definition pow2 :: "int \<Rightarrow> rat" where
  "pow2 e = (if 0 \<le> e then 2 ^ nat e else 1 / 2 ^ nat (- e))"

text \<open>The binary exponent of a number other than zero: \<open>2 ^ expo x \<le> \<bar>x\<bar> < 2 ^ (expo x + 1)\<close>.\<close>

definition expo :: "rat \<Rightarrow> int" where
  "expo x = (if 1 \<le> \<bar>x\<bar> then int (bits \<lfloor>\<bar>x\<bar>\<rfloor>) - 1
             else - int (bits (\<lceil>1 / \<bar>x\<bar>\<rceil> - 1)))"

definition round_half_even :: "rat \<Rightarrow> int" where
  "round_half_even y =
     (let f = \<lfloor>y\<rfloor>; d = y - of_int f
      in if d < 1 / 2 then f else if 1 / 2 < d then f + 1 else if even f then f else f + 1)"

text \<open>
  Rounding to the nearest double: a significand of 53 bits, and the fixed spacing
  \<open>2 ^ - 1074\<close> below the smallest normal exponent \<open>- 1022\<close>.
\<close>

definition js_round :: "rat \<Rightarrow> rat" where
  "js_round x =
     (if x = 0 then 0
      else (let u = pow2 (max (expo x) (- 1022) - 52)
            in of_int (round_half_even (x / u)) * u))"

definition js_add :: "rat \<Rightarrow> rat \<Rightarrow> rat" where
  "js_add a b = js_round (a + b)"

definition js_mul :: "rat \<Rightarrow> rat \<Rightarrow> rat" where
  "js_mul a b = js_round (a * b)"

section \<open>Data model\<close>

text \<open>
  The documents of \<^verbatim>\<open>Ecommerce-api-express-mongodb.js\<close>. A MongoDB collection is the
  list of its documents in insertion order. An ObjectId is a natural number handed out by
  a counter. Amounts are numbers as above; the customer identifier is an integer, and
  timestamps are integer milliseconds since the epoch.
\<close>

datatype order_status = Pending | Confirmed | Shipped | OutForDelivery | Delivered | Cancelled

record product =
  pid :: nat
  name :: string
  price :: rat
  stock :: rat

text \<open>A normalized request item \<^verbatim>\<open>{ productId, quantity }\<close>.\<close>

record norm_item =
  productId :: nat
  req_quantity :: rat

text \<open>An enriched item \<^verbatim>\<open>{ product: p, quantity, priceAtPurchase }\<close>.\<close>

record enriched_item =
  e_product :: product
  e_quantity :: rat
  e_priceAtPurchase :: rat

text \<open>An embedded order line (\<^verbatim>\<open>OrderItemSchema\<close>); \<open>item_product\<close> is the ObjectId.\<close>

record order_item =
  item_product :: nat
  quantity :: rat
  priceAtPurchase :: rat

record order =
  oid :: nat
  customerId :: int
  items :: "order_item list"
  totalAmount :: rat
  shippingAddress :: string
  status :: order_status
  createdAt :: int
  updatedAt :: int
  estimatedDelivery :: int

record state =
  products :: "product list"
  orders :: "order list"
  next_id :: nat

text \<open>
  What a handler answers with when it does not answer with a document. Each error is the
  HTTP status and message of the source:
  \<^item> \<open>MissingFields\<close>: 400 \<^verbatim>\<open>customer_id and items are required\<close>;
  \<^item> \<open>ProductsNotFound\<close>: 400 \<^verbatim>\<open>One or more products not found\<close>;
  \<^item> \<open>ProductNotFound i\<close>: 400 \<^verbatim>\<open>Product i not found\<close>;
  \<^item> \<open>InsufficientStock i\<close>: 400 \<^verbatim>\<open>Insufficient stock for product i\<close>;
  \<^item> \<open>ReservationFailed i\<close>: 500 \<^verbatim>\<open>Failed to reserve stock for product i\<close>;
  \<^item> \<open>SchemaValidationError\<close>: the ValidationError Mongoose raises in \<^verbatim>\<open>save()\<close>,
    answered with 500 by the error middleware;
  \<^item> \<open>OrderNotFound\<close>: 404 \<^verbatim>\<open>Order not found\<close>;
  \<^item> \<open>InvalidTransition_cancel\<close>: 400 \<^verbatim>\<open>Cannot cancel an order already shipped or delivered\<close>;
  \<^item> \<open>InvalidTransition_address\<close>: 400 \<^verbatim>\<open>Cannot change address after shipping\<close>;
  \<^item> \<open>InvalidTransition_delete\<close>: 400 \<^verbatim>\<open>Cannot delete an order already shipped/delivered\<close>;
  \<^item> \<open>NoActionableFields\<close>: 400 \<^verbatim>\<open>No actionable fields provided\<close>.
\<close>

datatype error =
    MissingFields
  | ProductsNotFound
  | ProductNotFound nat
  | InsufficientStock nat
  | ReservationFailed nat
  | SchemaValidationError
  | OrderNotFound
  | InvalidTransition_cancel
  | InvalidTransition_address
  | InvalidTransition_delete
  | NoActionableFields

fun http_status :: "error \<Rightarrow> nat" where
  "http_status MissingFields = 400"
| "http_status ProductsNotFound = 400"
| "http_status (ProductNotFound i) = 400"
| "http_status (InsufficientStock i) = 400"
| "http_status (ReservationFailed i) = 500"
| "http_status SchemaValidationError = 500"
| "http_status OrderNotFound = 404"
| "http_status InvalidTransition_cancel = 400"
| "http_status InvalidTransition_address = 400"
| "http_status InvalidTransition_delete = 400"
| "http_status NoActionableFields = 400"

text \<open>The JSON bodies of the successful answers.\<close>

datatype response =
    ProductCreated product
  | Seeded "product list"
  | OrderCreated nat order_status rat
  | StatusUpdated nat order_status
  | AddressUpdated nat string

text \<open>The strings of the \<^verbatim>\<open>status\<close> enum of \<^verbatim>\<open>OrderSchema\<close>.\<close>

fun string_of_status :: "order_status \<Rightarrow> string" where
  "string_of_status Pending = ''pending''"
| "string_of_status Confirmed = ''confirmed''"
| "string_of_status Shipped = ''shipped''"
| "string_of_status OutForDelivery = ''out_for_delivery''"
| "string_of_status Delivered = ''delivered''"
| "string_of_status Cancelled = ''cancelled''"

definition status_of_string :: "string \<Rightarrow> order_status option" where
  "status_of_string s =
     (if s = ''pending'' then Some Pending
      else if s = ''confirmed'' then Some Confirmed
      else if s = ''shipped'' then Some Shipped
      else if s = ''out_for_delivery'' then Some OutForDelivery
      else if s = ''delivered'' then Some Delivered
      else if s = ''cancelled'' then Some Cancelled
      else None)"

section \<open>The database operations the handlers use\<close>

text \<open>
  \<^verbatim>\<open>Model.updateOne(filter, update)\<close>: the first document that matches the filter is
  updated, and the answer counts the matched and the modified documents. The schemas
  set \<^verbatim>\<open>timestamps: true\<close>, so a matched update always writes; \<open>modifiedCount\<close> never
  exceeds \<open>matchedCount\<close> either way.
\<close>

record update_result =
  matchedCount :: nat
  modifiedCount :: nat

fun updateOne :: "('a \<Rightarrow> bool) \<Rightarrow> ('a \<Rightarrow> 'a) \<Rightarrow> 'a list \<Rightarrow> update_result \<times> 'a list" where
  "updateOne flt upd [] = (\<lparr>matchedCount = 0, modifiedCount = 0\<rparr>, [])"
| "updateOne flt upd (d # ds) =
     (if flt d then (\<lparr>matchedCount = 1, modifiedCount = 1\<rparr>, upd d # ds)
      else (case updateOne flt upd ds of (r, ds') \<Rightarrow> (r, d # ds')))"

text \<open>\<^verbatim>\<open>Product.find({ _id: { $in: productIds } })\<close>.\<close>

definition find_in :: "product list \<Rightarrow> nat list \<Rightarrow> product list" where
  "find_in ps productIds = filter (\<lambda>p. pid p \<in> set productIds) ps"

text \<open>\<^verbatim>\<open>Order.findById(id)\<close>.\<close>

definition findById :: "order list \<Rightarrow> nat \<Rightarrow> order option" where
  "findById os i = find (\<lambda>ord. oid ord = i) os"

text \<open>\<^verbatim>\<open>order.save()\<close> of a document that was read from the collection.\<close>

definition save_order :: "order \<Rightarrow> order list \<Rightarrow> order list" where
  "save_order ord os = snd (updateOne (\<lambda>d. oid d = oid ord) (\<lambda>d. ord) os)"

text \<open>
  The validators of \<^verbatim>\<open>OrderSchema\<close> and \<^verbatim>\<open>OrderItemSchema\<close> that \<^verbatim>\<open>save()\<close> runs on a new
  order: \<^verbatim>\<open>quantity\<close> has \<^verbatim>\<open>min: 1\<close>, \<^verbatim>\<open>priceAtPurchase\<close> and \<^verbatim>\<open>totalAmount\<close> have
  \<^verbatim>\<open>min: 0\<close>. The required fields are present and the status is in the enum by typing.
\<close>

definition validate_order :: "order \<Rightarrow> bool" where
  "validate_order ord \<longleftrightarrow>
     list_all (\<lambda>it. 1 \<le> quantity it \<and> 0 \<le> priceAtPurchase it) (items ord) \<and> 0 \<le> totalAmount ord"

text \<open>
  The validators of \<^verbatim>\<open>ProductSchema\<close>: \<^verbatim>\<open>name\<close> is required (an empty string does not
  satisfy \<^verbatim>\<open>required\<close>), \<^verbatim>\<open>price\<close> and \<^verbatim>\<open>stock\<close> have \<^verbatim>\<open>min: 0\<close>.
\<close>

definition validate_product :: "product \<Rightarrow> bool" where
  "validate_product p \<longleftrightarrow> name p \<noteq> [] \<and> 0 \<le> price p \<and> 0 \<le> stock p"

section \<open>Helper functions\<close>

text \<open>
  The callback of \<^verbatim>\<open>items.map\<close> in \<^verbatim>\<open>calculateTotalAndCheckStock\<close>, run over the items in
  order with the running \<^verbatim>\<open>total\<close> (here \<open>tot\<close>); the first \<^verbatim>\<open>throw\<close> ends the map.
\<close>

fun enrich :: "product list \<Rightarrow> norm_item list \<Rightarrow> rat \<Rightarrow> error + (rat \<times> enriched_item list)" where
  "enrich found [] tot = Inr (tot, [])"
| "enrich found (item # rest) tot =
     (case find (\<lambda>pp. pid pp = productId item) found of
        None \<Rightarrow> Inl (ProductNotFound (productId item))
      | Some p \<Rightarrow>
          if stock p < req_quantity item then Inl (InsufficientStock (pid p))
          else (case enrich found rest (js_add tot (js_mul (price p) (req_quantity item))) of
                  Inl e \<Rightarrow> Inl e
                | Inr (t, es) \<Rightarrow>
                    Inr (t, \<lparr>e_product = p, e_quantity = req_quantity item,
                             e_priceAtPurchase = price p\<rparr> # es)))"

definition calculateTotalAndCheckStock ::
  "product list \<Rightarrow> norm_item list \<Rightarrow> error + (rat \<times> enriched_item list)" where
  "calculateTotalAndCheckStock ps its =
     (let productIds = map productId its;
          found = find_in ps productIds
      in if length found \<noteq> length productIds then Inl ProductsNotFound
         else enrich found its 0)"

text \<open>
  One operation of \<^verbatim>\<open>reduceStock\<close>:
  \<^verbatim>\<open>updateOne({ _id, stock: { $gte: quantity } }, { $inc: { stock: -quantity } })\<close>.
\<close>

definition reserve_op :: "product list \<Rightarrow> enriched_item \<Rightarrow> update_result \<times> product list" where
  "reserve_op ps it =
     updateOne (\<lambda>p. pid p = pid (e_product it) \<and> e_quantity it \<le> stock p)
               (\<lambda>p. p\<lparr>stock := js_add (stock p) (- e_quantity it)\<rparr>) ps"

text \<open>
  \<^verbatim>\<open>Promise.all(ops)\<close>: every update is issued and awaited, whatever the others answer.
  The updates are atomic and are applied here in the order of the items.
\<close>

fun reserve_ops :: "product list \<Rightarrow> enriched_item list \<Rightarrow> update_result list \<times> product list" where
  "reserve_ops ps [] = ([], ps)"
| "reserve_ops ps (it # its) =
     (case reserve_op ps it of (r, ps1) \<Rightarrow>
        (case reserve_ops ps1 its of (rs, ps2) \<Rightarrow> (r # rs, ps2)))"

text \<open>The \<^verbatim>\<open>for\<close> loop of \<^verbatim>\<open>reduceStock\<close> over the answers.\<close>

fun check_results :: "update_result list \<Rightarrow> enriched_item list \<Rightarrow> error option" where
  "check_results (r # rs) (it # its) =
     (if modifiedCount r = 0 \<and> matchedCount r = 0
      then Some (ReservationFailed (pid (e_product it)))
      else check_results rs its)"
| "check_results _ _ = None"

text \<open>\<^verbatim>\<open>reduceStock\<close> answers with the collection as the updates left it, also when it throws.\<close>

definition reduceStock :: "product list \<Rightarrow> enriched_item list \<Rightarrow> (error + unit) \<times> product list" where
  "reduceStock ps enrichedItems =
     (case reserve_ops ps enrichedItems of (res, ps') \<Rightarrow>
        (case check_results res enrichedItems of
           Some e \<Rightarrow> (Inl e, ps')
         | None \<Rightarrow> (Inr (), ps')))"

text \<open>
  One operation of \<^verbatim>\<open>restoreStock\<close>:
  \<^verbatim>\<open>updateOne({ _id: it.product }, { $inc: { stock: it.quantity } })\<close>, on the pair
  \<^verbatim>\<open>{ product, quantity }\<close> the handlers build from an order line.
\<close>

definition restore_op :: "product list \<Rightarrow> nat \<times> rat \<Rightarrow> product list" where
  "restore_op ps it =
     snd (updateOne (\<lambda>p. pid p = fst it) (\<lambda>p. p\<lparr>stock := js_add (stock p) (snd it)\<rparr>) ps)"

text \<open>\<^verbatim>\<open>restoreStock\<close> awaits the updates and reads none of their answers.\<close>

fun restoreStock :: "product list \<Rightarrow> (nat \<times> rat) list \<Rightarrow> product list" where
  "restoreStock ps [] = ps"
| "restoreStock ps (it # its) = restoreStock (restore_op ps it) its"

section \<open>Route handlers\<close>

text \<open>
  Every handler takes the database and its request, and answers with the response (or the
  error the error middleware reports) and the database as it leaves it. A field of the
  request body that is tested for truthiness is a string, absent when empty; \<open>now\<close> is
  the clock the handler reads.
\<close>

text \<open>\<^verbatim>\<open>POST /v1/products\<close>.\<close>

definition createProduct :: "state \<Rightarrow> string \<Rightarrow> rat \<Rightarrow> rat \<Rightarrow> (error + response) \<times> state" where
  "createProduct st nm pr stk =
     (let p = \<lparr>pid = next_id st, name = nm, price = pr, stock = stk\<rparr>
      in if validate_product p
         then (Inr (ProductCreated p),
               st\<lparr>products := products st @ [p], next_id := Suc (next_id st)\<rparr>)
         else (Inl SchemaValidationError, st))"

text \<open>\<^verbatim>\<open>POST /v1/seed\<close>: \<^verbatim>\<open>deleteMany({})\<close>, then \<^verbatim>\<open>insertMany(sample)\<close>.\<close>

definition sample :: "(string \<times> rat \<times> rat) list" where
  "sample =
     [(''Wireless Headphones'', 249900, 10),
      (''T-Shirt'', 59900, 30),
      (''Coffee Mug'', 19900, 50),
      (''USB-C Cable'', 39900, 100),
      (''Notebook'', 12900, 200)]"

definition seed :: "state \<Rightarrow> (error + response) \<times> state" where
  "seed st =
     (let created =
            map (\<lambda>(i, (nm, pr, stk)). \<lparr>pid = next_id st + i, name = nm, price = pr, stock = stk\<rparr>)
                (enumerate 0 sample)
      in (Inr (Seeded created),
          st\<lparr>products := created, next_id := next_id st + length sample\<rparr>))"

text \<open>
  \<^verbatim>\<open>POST /v1/orders\<close>. \<open>customer_id\<close> is \<open>None\<close> when the body has none; \<open>its\<close> are the
  normalized items. The catch block only forwards the error: what \<^verbatim>\<open>reduceStock\<close> wrote
  stays written.
\<close>

text \<open>
  \<^verbatim>\<open>enriched.map(e => ({ product: e.product._id, quantity: e.quantity,
  priceAtPurchase: e.priceAtPurchase }))\<close>.
\<close>

definition order_lines :: "enriched_item list \<Rightarrow> order_item list" where
  "order_lines enriched =
     map (\<lambda>e. \<lparr>item_product = pid (e_product e), quantity = e_quantity e,
               priceAtPurchase = e_priceAtPurchase e\<rparr>) enriched"

definition five_days :: int where
  "five_days = 5 * 24 * 60 * 60 * 1000"

definition postOrder ::
  "state \<Rightarrow> int option \<Rightarrow> norm_item list \<Rightarrow> string \<Rightarrow> int \<Rightarrow> (error + response) \<times> state" where
  "postOrder st customer_id its shipping_address now =
     (case customer_id of
        None \<Rightarrow> (Inl MissingFields, st)
      | Some c \<Rightarrow>
          if c = 0 \<or> its = [] then (Inl MissingFields, st)
          else (case calculateTotalAndCheckStock (products st) its of
                  Inl e \<Rightarrow> (Inl e, st)
                | Inr (tot, enriched) \<Rightarrow>
                    (case reduceStock (products st) enriched of
                       (Inl e, ps') \<Rightarrow> (Inl e, st\<lparr>products := ps'\<rparr>)
                     | (Inr u, ps') \<Rightarrow>
                         (let orderItems = order_lines enriched;
                              ord = \<lparr>oid = next_id st, customerId = c, items = orderItems,
                                     totalAmount = tot, shippingAddress = shipping_address,
                                     status = Confirmed, createdAt = now, updatedAt = now,
                                     estimatedDelivery = now + five_days\<rparr>
                          in if validate_order ord
                             then (Inr (OrderCreated (oid ord) (status ord) (totalAmount ord)),
                                   st\<lparr>products := ps', orders := orders st @ [ord],
                                      next_id := Suc (next_id st)\<rparr>)
                             else (Inl SchemaValidationError, st\<lparr>products := ps'\<rparr>)))))"

text \<open>\<^verbatim>\<open>order.items.map(it => ({ product: it.product, quantity: it.quantity }))\<close>.\<close>

definition restore_pairs :: "order_item list \<Rightarrow> (nat \<times> rat) list" where
  "restore_pairs its = map (\<lambda>it. (item_product it, quantity it)) its"

text \<open>\<^verbatim>\<open>['shipped','out_for_delivery','delivered'].includes(order.status)\<close>.\<close>

definition shipped_or_later :: "order \<Rightarrow> bool" where
  "shipped_or_later ord \<longleftrightarrow> status ord \<in> set [Shipped, OutForDelivery, Delivered]"

text \<open>
  \<^verbatim>\<open>PUT /v1/orders/:id\<close> with the body's \<^verbatim>\<open>status\<close> and \<^verbatim>\<open>shipping_address\<close>. In the last
  branch \<^verbatim>\<open>save()\<close> rejects a status string that is not in the enum.
\<close>

definition putOrder ::
  "state \<Rightarrow> nat \<Rightarrow> string \<Rightarrow> string \<Rightarrow> int \<Rightarrow> (error + response) \<times> state" where
  "putOrder st i status_str shipping_address now =
     (case findById (orders st) i of
        None \<Rightarrow> (Inl OrderNotFound, st)
      | Some ord \<Rightarrow>
          if status_str = ''cancelled'' then
            (if shipped_or_later ord then (Inl InvalidTransition_cancel, st)
             else (let ps' = restoreStock (products st) (restore_pairs (items ord));
                       ord' = ord\<lparr>status := Cancelled, updatedAt := now\<rparr>
                   in (Inr (StatusUpdated (oid ord') (status ord')),
                       st\<lparr>products := ps', orders := save_order ord' (orders st)\<rparr>)))
          else if shipping_address \<noteq> [] then
            (if shipped_or_later ord then (Inl InvalidTransition_address, st)
             else (let ord' = ord\<lparr>shippingAddress := shipping_address, updatedAt := now\<rparr>
                   in (Inr (AddressUpdated (oid ord') (shippingAddress ord')),
                       st\<lparr>orders := save_order ord' (orders st)\<rparr>)))
          else if status_str \<noteq> [] then
            (case status_of_string status_str of
               None \<Rightarrow> (Inl SchemaValidationError, st)
             | Some s \<Rightarrow>
                 (let ord' = ord\<lparr>status := s, updatedAt := now\<rparr>
                  in (Inr (StatusUpdated (oid ord') (status ord')),
                      st\<lparr>orders := save_order ord' (orders st)\<rparr>)))
          else (Inl NoActionableFields, st))"

text \<open>
  \<^verbatim>\<open>DELETE /v1/orders/:id\<close>. The handler assigns only \<^verbatim>\<open>status\<close>. When that changes the
  document, \<^verbatim>\<open>save()\<close> writes it and the schema's \<^verbatim>\<open>timestamps\<close> option sets \<^verbatim>\<open>updatedAt\<close>;
  on an order that is already cancelled nothing is modified and \<^verbatim>\<open>save()\<close> writes nothing.
\<close>

definition deleteOrder :: "state \<Rightarrow> nat \<Rightarrow> int \<Rightarrow> (error + response) \<times> state" where
  "deleteOrder st i now =
     (case findById (orders st) i of
        None \<Rightarrow> (Inl OrderNotFound, st)
      | Some ord \<Rightarrow>
          if shipped_or_later ord then (Inl InvalidTransition_delete, st)
          else (let ps' = restoreStock (products st) (restore_pairs (items ord));
                    ord' = (if status ord = Cancelled then ord
                            else ord\<lparr>status := Cancelled, updatedAt := now\<rparr>)
                in (Inr (StatusUpdated (oid ord') (status ord')),
                    st\<lparr>products := ps', orders := save_order ord' (orders st)\<rparr>)))"

text \<open>
  The operations of the specification's interface on the update route: \<open>cancelOrder\<close> is
  the request \<^verbatim>\<open>{ status: 'cancelled' }\<close>, \<open>setStatus\<close> the request \<^verbatim>\<open>{ status }\<close>.
\<close>

definition cancelOrder :: "state \<Rightarrow> nat \<Rightarrow> int \<Rightarrow> (error + response) \<times> state" where
  "cancelOrder st i now = putOrder st i ''cancelled'' [] now"

definition setStatus :: "state \<Rightarrow> nat \<Rightarrow> order_status \<Rightarrow> int \<Rightarrow> (error + response) \<times> state" where
  "setStatus st i s now = putOrder st i (string_of_status s) [] now"

section \<open>Runs of the server\<close>

text \<open>
  The requests that write. The read-only routes (health, listings, lookups, the status
  endpoint) leave the database as it is and are not events.
\<close>

datatype event =
    CreateProduct string rat rat
  | Seed
  | PostOrder "int option" "norm_item list" string int
  | PutOrder nat string string int
  | DeleteOrder nat int

fun step :: "state \<Rightarrow> event \<Rightarrow> state" where
  "step st (CreateProduct nm pr stk) = snd (createProduct st nm pr stk)"
| "step st Seed = snd (seed st)"
| "step st (PostOrder c its addr now) = snd (postOrder st c its addr now)"
| "step st (PutOrder i s addr now) = snd (putOrder st i s addr now)"
| "step st (DeleteOrder i now) = snd (deleteOrder st i now)"

definition init_state :: state where
  "init_state = \<lparr>products = [], orders = [], next_id = 0\<rparr>"

definition run :: "event list \<Rightarrow> state" where
  "run evs = foldl step init_state evs"

section \<open>Quantities the properties speak of\<close>

text \<open>The stock of the product with a given identifier, when the collection has it.\<close>

definition stock_of :: "product list \<Rightarrow> nat \<Rightarrow> rat option" where
  "stock_of ps i = map_option stock (find (\<lambda>p. pid p = i) ps)"

text \<open>
  The sum of \<^verbatim>\<open>priceAtPurchase * quantity\<close> over the lines of an order, as the program
  adds numbers: from \<open>0\<close>, line by line.
\<close>

fun sum_lines :: "rat \<Rightarrow> order_item list \<Rightarrow> rat" where
  "sum_lines t [] = t"
| "sum_lines t (it # its) = sum_lines (js_add t (js_mul (priceAtPurchase it) (quantity it))) its"

definition items_total :: "order_item list \<Rightarrow> rat" where
  "items_total its = sum_lines 0 its"


text \<open>The quantity a list of restore pairs names for product \<open>i\<close>, as an exact sum.\<close>

definition given_back :: "(nat \<times> rat) list \<Rightarrow> nat \<Rightarrow> rat" where
  "given_back its i = sum_list (map (\<lambda>it. if fst it = i then snd it else 0) its)"

text \<open>
  What the conditional decrements of a batch make of the stock \<open>s\<close> of product \<open>i\<close>, one
  after the other: an item of the product whose quantity the stock covers is subtracted.
\<close>

fun reserved_stock :: "enriched_item list \<Rightarrow> nat \<Rightarrow> rat \<Rightarrow> rat" where
  "reserved_stock [] i s = s"
| "reserved_stock (e # es) i s =
     reserved_stock es i
       (if pid (e_product e) = i \<and> e_quantity e \<le> s then js_add s (- e_quantity e) else s)"

text \<open>What the increments of a release make of the stock \<open>s\<close> of product \<open>i\<close>.\<close>

fun released_stock :: "(nat \<times> rat) list \<Rightarrow> nat \<Rightarrow> rat \<Rightarrow> rat" where
  "released_stock [] i s = s"
| "released_stock (it # its) i s =
     released_stock its i (if fst it = i then js_add s (snd it) else s)"

text \<open>Every item of product \<open>i\<close> finds its quantity covered when its turn comes.\<close>

fun fits :: "enriched_item list \<Rightarrow> nat \<Rightarrow> rat \<Rightarrow> bool" where
  "fits [] i s = True"
| "fits (e # es) i s =
     (if pid (e_product e) = i
      then e_quantity e \<le> s \<and> fits es i (js_add s (- e_quantity e))
      else fits es i s)"

text \<open>
  Integers, and the integers every double below them represents exactly: the counts from
  \<open>0\<close> to \<open>2 ^ 53\<close>.
\<close>

definition is_int :: "rat \<Rightarrow> bool" where
  "is_int x \<longleftrightarrow> of_int \<lfloor>x\<rfloor> = x"

definition is_count :: "rat \<Rightarrow> bool" where
  "is_count x \<longleftrightarrow> is_int x \<and> 0 \<le> x"

definition safe_count :: "rat \<Rightarrow> bool" where
  "safe_count x \<longleftrightarrow> is_int x \<and> 0 \<le> x \<and> x \<le> 9007199254740992"

text \<open>What identifies an order and what its amount is computed from.\<close>

definition order_core :: "order \<Rightarrow> nat \<times> order_item list \<times> rat" where
  "order_core ord = (oid ord, items ord, totalAmount ord)"

text \<open>
  The invariant of the database: no stock is negative, every stored order line has a
  quantity of at least 1, and every stored order's total is the sum over its lines.
\<close>

definition db_ok :: "state \<Rightarrow> bool" where
  "db_ok st \<longleftrightarrow>
     (\<forall>p \<in> set (products st). 0 \<le> stock p) \<and>
     (\<forall>ord \<in> set (orders st).
        (\<forall>it \<in> set (items ord). 1 \<le> quantity it) \<and> totalAmount ord = items_total (items ord))"

text \<open>Product identifiers are unique and were all handed out by the counter.\<close>

definition ids_ok :: "state \<Rightarrow> bool" where
  "ids_ok st \<longleftrightarrow>
     distinct (map pid (products st)) \<and> (\<forall>i \<in> set (map pid (products st)). i < next_id st)"

section \<open>A small shop\<close>

text \<open>Concrete documents on which the properties below are exercised.\<close>

definition lamp :: product where
  "lamp = \<lparr>pid = 1, name = ''Lamp'', price = 700, stock = 5\<rparr>"

definition vase :: product where
  "vase = \<lparr>pid = 2, name = ''Vase'', price = 300, stock = 4\<rparr>"

definition sold_out :: product where
  "sold_out = \<lparr>pid = 3, name = ''Clock'', price = 900, stock = 0\<rparr>"

definition want :: "product \<Rightarrow> rat \<Rightarrow> enriched_item" where
  "want p q = \<lparr>e_product = p, e_quantity = q, e_priceAtPurchase = price p\<rparr>"

text \<open>An order for two lamps, and the database after it was placed.\<close>

definition placed :: order where
  "placed = \<lparr>oid = 7, customerId = 42,
              items = [\<lparr>item_product = 1, quantity = 2, priceAtPurchase = 700\<rparr>],
              totalAmount = 1400, shippingAddress = ''12 Mill Lane'', status = Confirmed,
              createdAt = 1000, updatedAt = 1000, estimatedDelivery = 432001000\<rparr>"

definition shop :: state where
  "shop = \<lparr>products = [lamp\<lparr>stock := 3\<rparr>, vase], orders = [placed], next_id = 8\<rparr>"

section \<open>Facts about the numbers\<close>

lemma bits_le: "n < 2 ^ k \<Longrightarrow> bits n \<le> k"
proof (induction k arbitrary: n)
  case 0
  then show ?case by (simp add: bits.simps)
next
  case (Suc k)
  from Suc.prems have "n div 2 < 2 ^ k" by simp
  from Suc.IH [OF this] show ?case by (subst bits.simps) simp
qed

lemma bits_pos: "0 < n \<Longrightarrow> 0 < bits n"
  by (subst bits.simps) simp

lemma pow2_pos: "0 < pow2 e"
  by (simp add: pow2_def)

lemma round_half_even_of_int: "round_half_even (of_int m) = m"
  by (simp add: round_half_even_def)

lemma round_half_even_nonneg: "0 \<le> y \<Longrightarrow> 0 \<le> round_half_even y"
  by (auto simp: round_half_even_def Let_def)

text \<open>Rounding keeps the sign.\<close>

lemma js_round_nonneg: "0 \<le> x \<Longrightarrow> 0 \<le> js_round x"
proof (cases "x = 0")
  case True
  then show ?thesis by (simp add: js_round_def)
next
  case False
  assume x: "0 \<le> x"
  let ?u = "pow2 (max (expo x) (- 1022) - 52)"
  have "0 \<le> x / ?u" using x pow2_pos [of "max (expo x) (- 1022) - 52"] by simp
  then have "0 \<le> round_half_even (x / ?u)" by (rule round_half_even_nonneg)
  then have "0 \<le> (of_int (round_half_even (x / ?u)) :: rat) * ?u"
    using pow2_pos [of "max (expo x) (- 1022) - 52"] by simp
  with False show ?thesis by (simp add: js_round_def Let_def)
qed

text \<open>Integers below \<open>2 ^ 53\<close> in magnitude are doubles.\<close>

lemma js_round_small:
  assumes "\<bar>n\<bar> < 2 ^ 53"
  shows "js_round (of_int n) = of_int n"
proof (cases "n = 0")
  case True
  then show ?thesis by (simp add: js_round_def)
next
  case False
  let ?b = "bits \<bar>n\<bar>"
  from False have abs1: "(1::rat) \<le> \<bar>of_int n\<bar>"
    by (metis abs_ge_zero linorder_not_less of_int_abs of_int_1_le_iff zabs_less_one_iff less_le_not_le le_less_linear)
  have fl: "\<lfloor>\<bar>(of_int n :: rat)\<bar>\<rfloor> = \<bar>n\<bar>"
    by (metis floor_of_int of_int_abs)
  have b1: "0 < ?b" using False by (intro bits_pos) simp
  have b2: "?b \<le> 53" using assms by (rule bits_le)
  have e: "expo (of_int n) = int ?b - 1"
    using abs1 fl by (simp add: expo_def)
  define k where "k = 53 - ?b"
  have m: "max (expo (of_int n)) (- 1022) - 52 = - int k"
    using e b1 b2 by (simp add: k_def)
  have u: "pow2 (- int k) = 1 / 2 ^ k"
    by (cases "k = 0") (simp_all add: pow2_def)
  have "of_int n / (1 / 2 ^ k) = (of_int (n * 2 ^ k) :: rat)" by simp
  then have "round_half_even (of_int n / (1 / 2 ^ k)) = n * 2 ^ k"
    using round_half_even_of_int [of "n * 2 ^ k"] by simp
  then have "js_round (of_int n) = of_int (n * 2 ^ k) * (1 / 2 ^ k)"
    using False m u by (simp add: js_round_def Let_def)
  then show ?thesis by simp
qed

lemma floor_rat_numeral_div [simp]:
  "\<lfloor>(numeral a :: rat) / numeral b\<rfloor> = numeral a div numeral b"
  by (metis floor_divide_of_int_eq of_int_numeral)

lemma js_round_numeral:
  "(numeral k :: int) < 9007199254740992 \<Longrightarrow> js_round (numeral k) = numeral k"
  using js_round_small [of "numeral k"] by simp

lemma js_round_neg_numeral:
  "(numeral k :: int) < 9007199254740992 \<Longrightarrow> js_round (- numeral k) = - numeral k"
  using js_round_small [of "- numeral k"] by simp

lemma js_round_0: "js_round 0 = 0"
  by (simp add: js_round_def)

lemma js_round_1: "js_round 1 = 1"
  using js_round_small [of 1] by simp

lemma js_round_2_53: "js_round 9007199254740992 = 9007199254740992"
  by (simp add: js_round_def expo_def pow2_def round_half_even_def bits.simps Let_def)

lemmas js_eval = js_add_def js_mul_def js_round_numeral js_round_neg_numeral js_round_0 js_round_1

lemma is_int_of_int: "is_int (of_int n)"
  by (simp add: is_int_def)

lemma is_int_D: "is_int x \<Longrightarrow> x = of_int \<lfloor>x\<rfloor>"
  unfolding is_int_def by (rule sym)

lemma is_int_add: "is_int a \<Longrightarrow> is_int b \<Longrightarrow> is_int (a + b)"
  by (metis is_int_D is_int_of_int of_int_add)

lemma is_int_diff: "is_int a \<Longrightarrow> is_int b \<Longrightarrow> is_int (a - b)"
  by (metis is_int_D is_int_of_int of_int_diff)

text \<open>A count up to \<open>2 ^ 53\<close> is a double: sums and differences that stay there are exact.\<close>

lemma js_round_safe: "safe_count x \<Longrightarrow> js_round x = x"
proof -
  assume s: "safe_count x"
  then have x: "x = of_int \<lfloor>x\<rfloor>" unfolding safe_count_def by (intro is_int_D) simp
  from s have "0 \<le> x" and "x \<le> 9007199254740992"
    by (simp_all add: safe_count_def)
  then have "0 \<le> \<lfloor>x\<rfloor>" and "\<lfloor>x\<rfloor> \<le> 9007199254740992"
    by (simp_all add: floor_le_iff le_floor_iff)
  then have "\<bar>\<lfloor>x\<rfloor>\<bar> < 9007199254740992 \<or> \<lfloor>x\<rfloor> = 9007199254740992" by arith
  moreover have "(2::int) ^ 53 = 9007199254740992" by simp
  ultimately consider "\<bar>\<lfloor>x\<rfloor>\<bar> < 2 ^ 53" | "\<lfloor>x\<rfloor> = 9007199254740992" by metis
  then show ?thesis
  proof cases
    case 1
    from js_round_small [OF 1] x show ?thesis by simp
  next
    case 2
    with x have "x = 9007199254740992" by simp
    then show ?thesis by (simp add: js_round_2_53)
  qed
qed

lemma js_add_safe: "safe_count (a + b) \<Longrightarrow> js_add a b = a + b"
  by (simp add: js_add_def js_round_safe)

lemma js_sub_exact:
  assumes "safe_count s" and "is_count q" and "q \<le> s"
  shows "js_add s (- q) = s - q" and "safe_count (s - q)"
proof -
  from assms show 1: "safe_count (s - q)"
    by (auto simp: safe_count_def is_count_def intro: is_int_diff)
  from js_add_safe [of s "- q"] 1 show "js_add s (- q) = s - q" by simp
qed

section \<open>Facts about the database operations\<close>

lemma updateOne_counts:
  "modifiedCount (fst (updateOne flt upd ds)) = matchedCount (fst (updateOne flt upd ds))"
  by (induction ds) (auto split: prod.splits)

lemma updateOne_matched_iff:
  "matchedCount (fst (updateOne flt upd ds)) \<noteq> 0 \<longleftrightarrow> (\<exists>d \<in> set ds. flt d)"
  by (induction ds) (auto split: prod.splits)


lemma updateOne_keys:
  "(\<And>d. key (upd d) = key d) \<Longrightarrow> map key (snd (updateOne flt upd ds)) = map key ds"
  by (induction ds) (auto split: prod.splits)

text \<open>With unique keys, an update whose filter fixes the key touches one document.\<close>

lemma updateOne_distinct:
  "distinct (map key ds) \<Longrightarrow> (\<forall>d. flt d \<longrightarrow> key d = k) \<Longrightarrow>
   snd (updateOne flt upd ds) = map (\<lambda>d. if flt d then upd d else d) ds"
proof (induction ds)
  case Nil
  then show ?case by simp
next
  case (Cons d ds)
  show ?case
  proof (cases "flt d")
    case True
    with Cons.prems have "\<forall>x \<in> set ds. \<not> flt x"
      by (metis distinct.simps(2) image_eqI list.simps(9) set_map)
    then have "map (\<lambda>d. if flt d then upd d else d) ds = ds"
      by (simp add: map_idI)
    with True show ?thesis by simp
  next
    case False
    with Cons show ?thesis by (auto split: prod.splits)
  qed
qed


lemma reserve_op_matched_iff:
  "matchedCount (fst (reserve_op ps e)) \<noteq> 0 \<longleftrightarrow>
     (\<exists>p \<in> set ps. pid p = pid (e_product e) \<and> e_quantity e \<le> stock p)"
  unfolding reserve_op_def by (rule updateOne_matched_iff)

lemma reserve_op_pids: "map pid (snd (reserve_op ps e)) = map pid ps"
  unfolding reserve_op_def by (rule updateOne_keys) simp

lemma restore_op_pids: "map pid (restore_op ps it) = map pid ps"
  unfolding restore_op_def by (rule updateOne_keys) simp

lemma restoreStock_pids: "map pid (restoreStock ps its) = map pid ps"
  by (induction its arbitrary: ps) (simp_all add: restore_op_pids)

lemma reserve_ops_Cons:
  "reserve_ops ps (e # es) =
     (fst (reserve_op ps e) # fst (reserve_ops (snd (reserve_op ps e)) es),
      snd (reserve_ops (snd (reserve_op ps e)) es))"
  by (simp split: prod.splits)

lemma reserve_ops_pids: "map pid (snd (reserve_ops ps es)) = map pid ps"
proof (induction es arbitrary: ps)
  case Nil
  show ?case by simp
next
  case (Cons e es)
  show ?case
    unfolding reserve_ops_Cons using Cons [of "snd (reserve_op ps e)"]
    by (simp add: reserve_op_pids)
qed

lemma reserve_ops_length: "length (fst (reserve_ops ps es)) = length es"
proof (induction es arbitrary: ps)
  case Nil
  show ?case by simp
next
  case (Cons e es)
  show ?case
    unfolding reserve_ops_Cons using Cons [of "snd (reserve_op ps e)"] by simp
qed

lemma reserve_op_counts:
  "modifiedCount (fst (reserve_op ps e)) = matchedCount (fst (reserve_op ps e))"
  unfolding reserve_op_def by (rule updateOne_counts)

lemma reserve_ops_counts:
  "\<forall>r \<in> set (fst (reserve_ops ps es)). modifiedCount r = matchedCount r"
proof (induction es arbitrary: ps)
  case Nil
  show ?case by simp
next
  case (Cons e es)
  show ?case unfolding reserve_ops_Cons
    using Cons [of "snd (reserve_op ps e)"] reserve_op_counts [of ps e] by simp
qed

lemma reduceStock_snd: "snd (reduceStock ps es) = snd (reserve_ops ps es)"
  by (simp add: reduceStock_def split: prod.splits option.splits)

lemma restore_pairs_order_lines_Cons:
  "restore_pairs (order_lines (e # es)) =
     (pid (e_product e), e_quantity e) # restore_pairs (order_lines es)"
  by (simp add: restore_pairs_def order_lines_def)

section \<open>Stock, product by product\<close>

text \<open>With unique identifiers, a batch changes each product's stock by a function of it.\<close>

lemma reserve_op_distinct:
  assumes "distinct (map pid ps)"
  shows "snd (reserve_op ps e) =
     map (\<lambda>p. p\<lparr>stock := reserved_stock [e] (pid p) (stock p)\<rparr>) ps"
proof -
  let ?flt = "\<lambda>p. pid p = pid (e_product e) \<and> e_quantity e \<le> stock p"
  have "snd (reserve_op ps e) =
      map (\<lambda>p. if ?flt p then p\<lparr>stock := js_add (stock p) (- e_quantity e)\<rparr> else p) ps"
    unfolding reserve_op_def
    using updateOne_distinct [OF assms, of ?flt "pid (e_product e)"] by simp
  also have "\<dots> = map (\<lambda>p. p\<lparr>stock := reserved_stock [e] (pid p) (stock p)\<rparr>) ps"
    by (rule map_cong) auto
  finally show ?thesis .
qed

lemma restore_op_distinct:
  assumes "distinct (map pid ps)"
  shows "restore_op ps it = map (\<lambda>p. p\<lparr>stock := released_stock [it] (pid p) (stock p)\<rparr>) ps"
proof -
  have "restore_op ps it =
      map (\<lambda>p. if pid p = fst it then p\<lparr>stock := js_add (stock p) (snd it)\<rparr> else p) ps"
    unfolding restore_op_def
    using updateOne_distinct [OF assms, of "\<lambda>p. pid p = fst it" "fst it"] by simp
  also have "\<dots> = map (\<lambda>p. p\<lparr>stock := released_stock [it] (pid p) (stock p)\<rparr>) ps"
    by (rule map_cong) auto
  finally show ?thesis .
qed

lemma reserve_ops_distinct:
  "distinct (map pid ps) \<Longrightarrow>
   snd (reserve_ops ps es) = map (\<lambda>p. p\<lparr>stock := reserved_stock es (pid p) (stock p)\<rparr>) ps"
proof (induction es arbitrary: ps)
  case Nil
  show ?case by (simp add: map_idI)
next
  case (Cons e es)
  have d1: "distinct (map pid (snd (reserve_op ps e)))"
    using Cons.prems by (simp add: reserve_op_pids)
  have "snd (reserve_ops (snd (reserve_op ps e)) es) =
      map (\<lambda>p. p\<lparr>stock := reserved_stock es (pid p) (stock p)\<rparr>) (snd (reserve_op ps e))"
    by (rule Cons.IH [OF d1])
  also have "\<dots> = map (\<lambda>p. p\<lparr>stock := reserved_stock es (pid p) (stock p)\<rparr>)
      (map (\<lambda>p. p\<lparr>stock := reserved_stock [e] (pid p) (stock p)\<rparr>) ps)"
    by (simp only: reserve_op_distinct [OF Cons.prems])
  also have "\<dots> = map (\<lambda>p. p\<lparr>stock := reserved_stock (e # es) (pid p) (stock p)\<rparr>) ps"
    by (simp add: comp_def)
  finally show ?case unfolding reserve_ops_Cons by simp
qed

lemma restoreStock_distinct:
  "distinct (map pid ps) \<Longrightarrow>
   restoreStock ps its = map (\<lambda>p. p\<lparr>stock := released_stock its (pid p) (stock p)\<rparr>) ps"
proof (induction its arbitrary: ps)
  case Nil
  show ?case by (simp add: map_idI)
next
  case (Cons it its)
  have d1: "distinct (map pid (restore_op ps it))"
    using Cons.prems by (simp add: restore_op_pids)
  have "restoreStock (restore_op ps it) its =
      map (\<lambda>p. p\<lparr>stock := released_stock its (pid p) (stock p)\<rparr>) (restore_op ps it)"
    by (rule Cons.IH [OF d1])
  also have "\<dots> = map (\<lambda>p. p\<lparr>stock := released_stock its (pid p) (stock p)\<rparr>)
      (map (\<lambda>p. p\<lparr>stock := released_stock [it] (pid p) (stock p)\<rparr>) ps)"
    by (simp only: restore_op_distinct [OF Cons.prems])
  also have "\<dots> = map (\<lambda>p. p\<lparr>stock := released_stock (it # its) (pid p) (stock p)\<rparr>) ps"
    by (simp add: comp_def)
  finally show ?case by simp
qed

lemma stock_of_map:
  "stock_of (map (\<lambda>p. p\<lparr>stock := F (pid p) (stock p)\<rparr>) ps) i = map_option (F i) (stock_of ps i)"
  by (induction ps) (auto simp: stock_of_def)

lemma stock_of_reserve_ops:
  "distinct (map pid ps) \<Longrightarrow>
   stock_of (snd (reserve_ops ps es)) i = map_option (reserved_stock es i) (stock_of ps i)"
  by (simp add: reserve_ops_distinct stock_of_map)






lemma findById_oid: "findById os i = Some ord \<Longrightarrow> oid ord = i"
  unfolding findById_def by (induction os) (auto split: if_splits)

lemma findById_mem: "findById os i = Some ord \<Longrightarrow> ord \<in> set os"
  unfolding findById_def by (auto simp: find_Some_iff)

lemma findById_save_order:
  "findById os i = Some ord \<Longrightarrow> oid ord' = i \<Longrightarrow> findById (save_order ord' os) i = Some ord'"
  unfolding findById_def save_order_def
  by (induction os) (auto split: if_splits prod.splits)

section \<open>Exact counts\<close>

lemma given_back_Cons:
  "given_back (it # its) j = (if fst it = j then snd it else 0) + given_back its j"
  by (simp add: given_back_def)

lemma given_back_count:
  "\<forall>it \<in> set its. is_count (snd it) \<Longrightarrow> is_count (given_back its j)"
proof (induction its)
  case Nil
  show ?case by (simp add: given_back_def is_count_def is_int_def)
next
  case (Cons it its)
  then have "is_count (given_back its j)" and "is_count (snd it)" by simp_all
  then show ?case
    by (auto simp: given_back_Cons is_count_def intro: is_int_add)
qed


text \<open>Within the counts up to \<open>2 ^ 53\<close> a release adds exactly.\<close>

lemma released_exact:
  "is_count t \<Longrightarrow> \<forall>it \<in> set its. is_count (snd it) \<Longrightarrow>
   t + given_back its i \<le> 9007199254740992 \<Longrightarrow>
   released_stock its i t = t + given_back its i"
proof (induction its arbitrary: t)
  case Nil
  show ?case by (simp add: given_back_def)
next
  case (Cons it its)
  from Cons.prems(2) have r: "\<forall>x \<in> set its. is_count (snd x)" and q: "is_count (snd it)"
    by simp_all
  from given_back_count [OF r] have g: "0 \<le> given_back its i" by (simp add: is_count_def)
  show ?case
  proof (cases "fst it = i")
    case True
    from Cons.prems(1,3) q g True have s: "safe_count (t + snd it)"
      by (auto simp: safe_count_def is_count_def given_back_Cons intro: is_int_add)
    then have c: "is_count (t + snd it)" by (simp add: safe_count_def is_count_def)
    from Cons.prems(3) True have b: "t + snd it + given_back its i \<le> 9007199254740992"
      by (simp add: given_back_Cons)
    from Cons.IH [OF c r b] True js_add_safe [OF s] show ?thesis
      by (simp add: given_back_Cons)
  next
    case False
    with Cons.prems(3) have "t + given_back its i \<le> 9007199254740992"
      by (simp add: given_back_Cons)
    from Cons.IH [OF Cons.prems(1) r this] False show ?thesis
      by (simp add: given_back_Cons)
  qed
qed

text \<open>Within the counts up to \<open>2 ^ 53\<close> the decrements that fit subtract exactly.\<close>

lemma reserved_exact:
  "fits es i s \<Longrightarrow> safe_count s \<Longrightarrow> \<forall>e \<in> set es. is_count (e_quantity e) \<Longrightarrow>
   reserved_stock es i s = s - given_back (restore_pairs (order_lines es)) i \<and>
   given_back (restore_pairs (order_lines es)) i \<le> s \<and> safe_count (reserved_stock es i s)"
proof (induction es arbitrary: s)
  case Nil
  then show ?case by (simp add: given_back_def restore_pairs_def order_lines_def safe_count_def)
next
  case (Cons e es)
  from Cons.prems(3) have r: "\<forall>x \<in> set es. is_count (e_quantity x)" and q: "is_count (e_quantity e)"
    by simp_all
  show ?case
  proof (cases "pid (e_product e) = i")
    case True
    with Cons.prems(1) have le: "e_quantity e \<le> s"
      and f: "fits es i (js_add s (- e_quantity e))"
      by simp_all
    note x = js_sub_exact [OF Cons.prems(2) q le]
    from f x(1) have f': "fits es i (s - e_quantity e)" by simp
    from Cons.IH [OF f' x(2) r]
    have a: "reserved_stock es i (s - e_quantity e) =
        s - e_quantity e - given_back (restore_pairs (order_lines es)) i"
      and b: "given_back (restore_pairs (order_lines es)) i \<le> s - e_quantity e"
      and c: "safe_count (reserved_stock es i (s - e_quantity e))"
      by blast+
    from a b c True le x(1) show ?thesis
      by (simp add: restore_pairs_order_lines_Cons given_back_Cons)
  next
    case False
    with Cons.prems(1) have f: "fits es i s" by simp
    from Cons.IH [OF f Cons.prems(2) r]
    have a: "reserved_stock es i s = s - given_back (restore_pairs (order_lines es)) i"
      and b: "given_back (restore_pairs (order_lines es)) i \<le> s"
      and c: "safe_count (reserved_stock es i s)"
      by blast+
    from a b c False show ?thesis
      by (simp add: restore_pairs_order_lines_Cons given_back_Cons)
  qed
qed

lemma release_after_reserve_stock:
  assumes "fits es i s" and "safe_count s" and "\<forall>e \<in> set es. is_count (e_quantity e)"
  shows "released_stock (restore_pairs (order_lines es)) i (reserved_stock es i s) = s"
proof -
  let ?its = "restore_pairs (order_lines es)"
  note x = reserved_exact [OF assms]
  from x have c: "is_count (reserved_stock es i s)"
    unfolding safe_count_def is_count_def by blast
  from assms(3) have q: "\<forall>it \<in> set ?its. is_count (snd it)"
    by (auto simp: restore_pairs_def order_lines_def)
  from x have "reserved_stock es i s + given_back ?its i = s" by simp
  with assms(2) have b: "reserved_stock es i s + given_back ?its i \<le> 9007199254740992"
    unfolding safe_count_def by simp
  from released_exact [OF c q b] x show ?thesis by simp
qed

section \<open>Release after reserve\<close>

lemma fits_of_matched:
  "distinct (map pid ps) \<Longrightarrow> check_results (fst (reserve_ops ps es)) es = None \<Longrightarrow>
   \<forall>p \<in> set ps. fits es (pid p) (stock p)"
proof (induction es arbitrary: ps)
  case Nil
  show ?case by simp
next
  case (Cons e es)
  let ?ps1 = "snd (reserve_op ps e)"
  from Cons.prems(2) have m: "matchedCount (fst (reserve_op ps e)) \<noteq> 0"
    and rest: "check_results (fst (reserve_ops ?ps1 es)) es = None"
    unfolding reserve_ops_Cons using reserve_op_counts [of ps e] by (auto split: if_splits)
  from m obtain p0 where p0: "p0 \<in> set ps" "pid p0 = pid (e_product e)" "e_quantity e \<le> stock p0"
    unfolding reserve_op_matched_iff by blast
  have d1: "distinct (map pid ?ps1)"
    using Cons.prems(1) by (simp add: reserve_op_pids)
  note ih = Cons.IH [OF d1 rest]
  show ?case
  proof
    fix p assume p: "p \<in> set ps"
    let ?p1 = "p\<lparr>stock := reserved_stock [e] (pid p) (stock p)\<rparr>"
    from p have "?p1 \<in> set (map (\<lambda>p. p\<lparr>stock := reserved_stock [e] (pid p) (stock p)\<rparr>) ps)"
      by simp
    then have "?p1 \<in> set ?ps1"
      by (simp only: reserve_op_distinct [OF Cons.prems(1)])
    with ih have f: "fits es (pid p) (reserved_stock [e] (pid p) (stock p))" by force
    show "fits (e # es) (pid p) (stock p)"
    proof (cases "pid (e_product e) = pid p")
      case True
      with p p0 Cons.prems(1) have "p = p0" by (metis distinct_map inj_onD)
      with p0 True f show ?thesis by simp
    next
      case False
      with f show ?thesis by simp
    qed
  qed
qed


text \<open>
  C4 (as the code has it). When every stock of the collection is a count up to \<open>2 ^ 53\<close>,
  every reserved quantity a count, and \<^verbatim>\<open>reduceStock\<close> has reserved the items (every
  decrement matched, so it did not throw), then \<^verbatim>\<open>restoreStock\<close> on the order lines built
  from the same items gives back the product collection exactly as it was before the
  reservation. Product identifiers are unique, as \<^verbatim>\<open>_id\<close> is in a collection.
\<close>

theorem reserve_release_roundtrip:
  assumes "distinct (map pid ps)"
    and "\<forall>p \<in> set ps. safe_count (stock p)"
    and "\<forall>e \<in> set es. is_count (e_quantity e)"
    and "reduceStock ps es = (Inr (), ps')"
  shows "restoreStock ps' (restore_pairs (order_lines es)) = ps"
proof -
  let ?its = "restore_pairs (order_lines es)"
  from assms(4) have c: "check_results (fst (reserve_ops ps es)) es = None"
    and p: "ps' = snd (reserve_ops ps es)"
    by (auto simp: reduceStock_def split: prod.splits option.splits)
  have d: "distinct (map pid ps')"
    using assms(1) p by (simp add: reserve_ops_pids)
  have "restoreStock ps' ?its =
      map (\<lambda>p. p\<lparr>stock := released_stock ?its (pid p) (stock p)\<rparr>) ps'"
    by (rule restoreStock_distinct [OF d])
  also have "\<dots> = map (\<lambda>p. p\<lparr>stock := released_stock ?its (pid p) (stock p)\<rparr>)
      (map (\<lambda>p. p\<lparr>stock := reserved_stock es (pid p) (stock p)\<rparr>) ps)"
    by (simp only: p reserve_ops_distinct [OF assms(1)])
  also have "\<dots> = map (\<lambda>p. p\<lparr>stock :=
      released_stock ?its (pid p) (reserved_stock es (pid p) (stock p))\<rparr>) ps"
    by (simp add: comp_def)
  also have "\<dots> = map (\<lambda>p. p) ps"
  proof (rule map_cong [OF refl])
    fix p assume m: "p \<in> set ps"
    from fits_of_matched [OF assms(1) c] m have f: "fits es (pid p) (stock p)" by blast
    from assms(2) m have s: "safe_count (stock p)" by blast
    from release_after_reserve_stock [OF f s assms(3)]
    show "p\<lparr>stock := released_stock ?its (pid p) (reserved_stock es (pid p) (stock p))\<rparr> = p"
      by simp
  qed
  finally show ?thesis by simp
qed

theorem reserve_release_roundtrip_witness:
  "distinct (map pid [lamp, vase]) \<and>
   reduceStock [lamp, vase] [want lamp 3, want vase 4] =
     (Inr (), [lamp\<lparr>stock := 2\<rparr>, vase\<lparr>stock := 0\<rparr>]) \<and>
   restoreStock [lamp\<lparr>stock := 2\<rparr>, vase\<lparr>stock := 0\<rparr>]
     (restore_pairs (order_lines [want lamp 3, want vase 4])) = [lamp, vase]"
proof -
  have d: "distinct (map pid [lamp, vase])"
    by (simp add: lamp_def vase_def)
  have s: "\<forall>p \<in> set [lamp, vase]. safe_count (stock p)"
    by (simp add: lamp_def vase_def safe_count_def is_int_def)
  have q: "\<forall>e \<in> set [want lamp 3, want vase 4]. is_count (e_quantity e)"
    by (simp add: want_def is_count_def is_int_def)
  have r: "reduceStock [lamp, vase] [want lamp 3, want vase 4] =
      (Inr (), [lamp\<lparr>stock := 2\<rparr>, vase\<lparr>stock := 0\<rparr>])"
    by (simp add: reduceStock_def reserve_op_def lamp_def vase_def want_def js_eval)
  from reserve_release_roundtrip [OF d s q r] d r show ?thesis by simp
qed

text \<open>
  Above \<open>2 ^ 53\<close> and on fractions the round trip is not exact. One unit of a stock of
  \<open>2 ^ 53 + 2\<close> is reserved and released: the stock comes back as \<open>2 ^ 53\<close>. A quantity
  of \<open>1.2\<close> (the double nearest to it) of a stock of \<open>3.4\<close> is reserved and released: the
  stock comes back one unit in the last place higher.
\<close>

theorem reserve_release_rounding_counterexample:
  "reduceStock [lamp\<lparr>stock := 9007199254740994\<rparr>] [want (lamp\<lparr>stock := 9007199254740994\<rparr>) 1] =
     (Inr (), [lamp\<lparr>stock := 9007199254740992\<rparr>]) \<and>
   restoreStock [lamp\<lparr>stock := 9007199254740992\<rparr>] (restore_pairs (order_lines [want lamp 1])) =
     [lamp\<lparr>stock := 9007199254740992\<rparr>] \<and>
   reduceStock [lamp\<lparr>stock := 7656119366529843 / 2251799813685248\<rparr>]
       [want lamp (5404319552844595 / 4503599627370496)] =
     (Inr (), [lamp\<lparr>stock := 4953959590107546 / 2251799813685248\<rparr>]) \<and>
   restoreStock [lamp\<lparr>stock := 4953959590107546 / 2251799813685248\<rparr>]
       (restore_pairs (order_lines [want lamp (5404319552844595 / 4503599627370496)])) =
     [lamp\<lparr>stock := 7656119366529844 / 2251799813685248\<rparr>]"
proof -
  have 1: "js_round 9007199254740993 = 9007199254740992"
    by (simp add: js_round_def expo_def pow2_def round_half_even_def bits.simps Let_def)
  have 2: "js_round (7656119366529843 / 2251799813685248 - 5404319552844595 / 4503599627370496) =
      4953959590107546 / 2251799813685248"
    by (simp add: js_round_def expo_def pow2_def round_half_even_def bits.simps Let_def)
  have 3: "js_round (4953959590107546 / 2251799813685248 + 5404319552844595 / 4503599627370496) =
      7656119366529844 / 2251799813685248"
    by (simp add: js_round_def expo_def pow2_def round_half_even_def bits.simps Let_def)
  have a: "reduceStock [lamp\<lparr>stock := 9007199254740994\<rparr>] [want (lamp\<lparr>stock := 9007199254740994\<rparr>) 1] =
      (Inr (), [lamp\<lparr>stock := 9007199254740992\<rparr>])"
    using 1 by (simp add: reduceStock_def reserve_op_def lamp_def want_def js_add_def)
  have b: "restoreStock [lamp\<lparr>stock := 9007199254740992\<rparr>] (restore_pairs (order_lines [want lamp 1])) =
      [lamp\<lparr>stock := 9007199254740992\<rparr>]"
    using 1 by (simp add: restore_op_def restore_pairs_def order_lines_def lamp_def want_def js_add_def)
  have c: "reduceStock [lamp\<lparr>stock := 7656119366529843 / 2251799813685248\<rparr>]
       [want lamp (5404319552844595 / 4503599627370496)] =
     (Inr (), [lamp\<lparr>stock := 4953959590107546 / 2251799813685248\<rparr>])"
    using 2 by (simp add: reduceStock_def reserve_op_def lamp_def want_def js_add_def)
  have d: "restoreStock [lamp\<lparr>stock := 4953959590107546 / 2251799813685248\<rparr>]
       (restore_pairs (order_lines [want lamp (5404319552844595 / 4503599627370496)])) =
     [lamp\<lparr>stock := 7656119366529844 / 2251799813685248\<rparr>]"
    using 3 by (simp add: restore_op_def restore_pairs_def order_lines_def lamp_def want_def js_add_def)
  from a b c d show ?thesis by blast
qed

section \<open>A reservation that fails\<close>

lemma check_results_Some:
  "length rs = length es \<Longrightarrow> check_results rs es = Some err \<Longrightarrow>
   \<exists>k < length es. err = ReservationFailed (pid (e_product (es ! k))) \<and>
      modifiedCount (rs ! k) = 0 \<and> matchedCount (rs ! k) = 0 \<and>
      (\<forall>j < k. \<not> (modifiedCount (rs ! j) = 0 \<and> matchedCount (rs ! j) = 0))"
proof (induction rs es rule: check_results.induct)
  case (1 r rs it its)
  show ?case
  proof (cases "modifiedCount r = 0 \<and> matchedCount r = 0")
    case True
    with 1 show ?thesis by (intro exI [of _ 0]) auto
  next
    case False
    with 1 obtain k where k: "k < length its"
      "err = ReservationFailed (pid (e_product (its ! k)))"
      "modifiedCount (rs ! k) = 0" "matchedCount (rs ! k) = 0"
      "\<forall>j < k. \<not> (modifiedCount (rs ! j) = 0 \<and> matchedCount (rs ! j) = 0)"
      by auto
    show ?thesis
    proof (intro exI [of _ "Suc k"] conjI allI impI)
      fix j assume "j < Suc k"
      then show "\<not> (modifiedCount ((r # rs) ! j) = 0 \<and> matchedCount ((r # rs) ! j) = 0)"
        using False k(5) by (cases j) auto
    qed (use k in auto)
  qed
qed auto

text \<open>The loop over the answers overlooks no unmatched update.\<close>

lemma check_results_None:
  "length rs = length es \<Longrightarrow> check_results rs es = None \<Longrightarrow> k < length es \<Longrightarrow>
   \<not> (modifiedCount (rs ! k) = 0 \<and> matchedCount (rs ! k) = 0)"
proof (induction rs es arbitrary: k rule: check_results.induct)
  case (1 r rs it its)
  from "1.prems"(2) have h: "\<not> (modifiedCount r = 0 \<and> matchedCount r = 0)"
    and t: "check_results rs its = None"
    by (auto split: if_splits)
  show ?case
  proof (cases k)
    case 0
    with h show ?thesis by simp
  next
    case (Suc k')
    with "1.prems" have "k' < length its" and "length rs = length its" by simp_all
    from "1.IH" [OF h this(2) t this(1)] Suc show ?thesis by simp
  qed
qed auto

lemma reduceStock_unmatched:
  assumes "k < length es" and "matchedCount (fst (reserve_ops ps es) ! k) = 0"
  shows "\<exists>err. fst (reduceStock ps es) = Inl err"
proof (cases "check_results (fst (reserve_ops ps es)) es")
  case None
  let ?rs = "fst (reserve_ops ps es)"
  from assms(1) have "?rs ! k \<in> set ?rs" by (simp add: reserve_ops_length)
  with reserve_ops_counts have "modifiedCount (?rs ! k) = matchedCount (?rs ! k)" by blast
  with assms(2) check_results_None [OF reserve_ops_length None assms(1)] show ?thesis by simp
next
  case (Some e)
  then show ?thesis by (auto simp: reduceStock_def split: prod.splits)
qed

lemma reduceStock_Inl:
  assumes "reduceStock ps es = (Inl err, ps')"
  shows "\<exists>k < length es. err = ReservationFailed (pid (e_product (es ! k))) \<and>
           matchedCount (fst (reserve_ops ps es) ! k) = 0 \<and>
           (\<forall>j < k. matchedCount (fst (reserve_ops ps es) ! j) \<noteq> 0)"
    and "ps' = snd (reserve_ops ps es)"
proof -
  let ?rs = "fst (reserve_ops ps es)"
  from assms have c: "check_results ?rs es = Some err" and p: "ps' = snd (reserve_ops ps es)"
    by (auto simp: reduceStock_def split: prod.splits option.splits)
  from check_results_Some [OF reserve_ops_length c]
  obtain k where k: "k < length es" "err = ReservationFailed (pid (e_product (es ! k)))"
      "matchedCount (?rs ! k) = 0"
      "\<forall>j < k. \<not> (modifiedCount (?rs ! j) = 0 \<and> matchedCount (?rs ! j) = 0)"
    by blast
  have "matchedCount (?rs ! j) \<noteq> 0" if "j < k" for j
  proof -
    from that k(1) have "?rs ! j \<in> set ?rs" by (simp add: reserve_ops_length)
    with reserve_ops_counts have "modifiedCount (?rs ! j) = matchedCount (?rs ! j)" by blast
    with k(4) that show ?thesis by auto
  qed
  with k show "\<exists>k < length es. err = ReservationFailed (pid (e_product (es ! k))) \<and>
           matchedCount (?rs ! k) = 0 \<and> (\<forall>j < k. matchedCount (?rs ! j) \<noteq> 0)"
    by blast
  show "ps' = snd (reserve_ops ps es)" by (rule p)
qed

lemma postOrder_Inl:
  assumes "postOrder st c its addr now = (Inl err, st')"
  shows "orders st' = orders st"
    and "err \<noteq> SchemaValidationError \<Longrightarrow> (\<forall>i. err \<noteq> ReservationFailed i) \<Longrightarrow> st' = st"
proof -
  show "orders st' = orders st"
    using assms
    by (auto simp: postOrder_def Let_def split: option.splits if_splits sum.splits prod.splits)
  assume a: "err \<noteq> SchemaValidationError" "\<forall>i. err \<noteq> ReservationFailed i"
  have rf: "reduceStock ps es = (Inl e, ps') \<Longrightarrow> \<exists>i. e = ReservationFailed i" for ps es e ps'
    using reduceStock_Inl(1) by blast
  from a assms show "st' = st"
    by (auto simp: postOrder_def Let_def split: option.splits if_splits sum.splits prod.splits
        dest!: rf)
qed

text \<open>
  C1 (as the code has it). When the update of some item of \<^verbatim>\<open>reduceStock\<close> matches nothing,
  the call throws; and when it throws, the error names the product of the first item, in
  item order, whose update matched nothing. Nothing is given back: every update was
  issued, and the stock of each product afterwards is what the conditional decrements
  of the batch, one after the other, make of its stock before. A \<^verbatim>\<open>POST /v1/orders\<close> that
  fails stores no order, and leaves the whole database as it was when it fails before
  the reservation (every error but the reservation's and the schema's).
\<close>

theorem reduceStock_failure_no_rollback:
  "(k < length es \<and> matchedCount (fst (reserve_ops ps es) ! k) = 0 \<longrightarrow>
      (\<exists>e. fst (reduceStock ps es) = Inl e)) \<and>
   (reduceStock ps es = (Inl err, ps') \<longrightarrow>
      (\<exists>k < length es. err = ReservationFailed (pid (e_product (es ! k))) \<and>
          matchedCount (fst (reserve_ops ps es) ! k) = 0 \<and>
          (\<forall>j < k. matchedCount (fst (reserve_ops ps es) ! j) \<noteq> 0))) \<and>
   (distinct (map pid ps) \<and> reduceStock ps es = (Inl err, ps') \<longrightarrow>
      (\<forall>i. stock_of ps' i = map_option (reserved_stock es i) (stock_of ps i))) \<and>
   (postOrder st c its addr now = (Inl err', st') \<longrightarrow>
      orders st' = orders st \<and>
      (err' \<noteq> SchemaValidationError \<and> (\<forall>i. err' \<noteq> ReservationFailed i) \<longrightarrow> st' = st))"
proof (intro conjI impI allI)
  assume "k < length es \<and> matchedCount (fst (reserve_ops ps es) ! k) = 0"
  then show "\<exists>e. fst (reduceStock ps es) = Inl e"
    using reduceStock_unmatched by blast
next
  assume "reduceStock ps es = (Inl err, ps')"
  then show "\<exists>k < length es. err = ReservationFailed (pid (e_product (es ! k))) \<and>
          matchedCount (fst (reserve_ops ps es) ! k) = 0 \<and>
          (\<forall>j < k. matchedCount (fst (reserve_ops ps es) ! j) \<noteq> 0)"
    by (rule reduceStock_Inl(1))
next
  fix i
  assume a: "distinct (map pid ps) \<and> reduceStock ps es = (Inl err, ps')"
  then have "ps' = snd (reserve_ops ps es)" using reduceStock_Inl(2) by blast
  with a show "stock_of ps' i = map_option (reserved_stock es i) (stock_of ps i)"
    by (simp add: stock_of_reserve_ops)
next
  assume "postOrder st c its addr now = (Inl err', st')"
  then show "orders st' = orders st" by (rule postOrder_Inl(1))
next
  assume "postOrder st c its addr now = (Inl err', st')"
    and "err' \<noteq> SchemaValidationError \<and> (\<forall>i. err' \<noteq> ReservationFailed i)"
  then show "st' = st" using postOrder_Inl(2) by blast
qed

theorem reduceStock_failure_no_rollback_witness:
  "distinct (map pid [lamp, sold_out]) \<and>
   matchedCount (fst (reserve_ops [lamp, sold_out]
     [want lamp 3, want (sold_out\<lparr>stock := 1\<rparr>) 1]) ! 1) = 0 \<and>
   reduceStock [lamp, sold_out] [want lamp 3, want (sold_out\<lparr>stock := 1\<rparr>) 1] =
     (Inl (ReservationFailed 3), [lamp\<lparr>stock := 2\<rparr>, sold_out]) \<and>
   reserved_stock [want lamp 3, want (sold_out\<lparr>stock := 1\<rparr>) 1] 1 5 = 2 \<and>
   stock_of [lamp\<lparr>stock := 2\<rparr>, sold_out] 1 = Some 2 \<and>
   postOrder shop (Some 42) [\<lparr>productId = 9, req_quantity = 1\<rparr>] [] 5000 =
     (Inl ProductsNotFound, shop)"
proof -
  let ?es = "[want lamp 3, want (sold_out\<lparr>stock := 1\<rparr>) 1]"
  have d: "distinct (map pid [lamp, sold_out])"
    by (simp add: lamp_def sold_out_def)
  have k: "(1::nat) < length ?es" by simp
  have m: "matchedCount (fst (reserve_ops [lamp, sold_out] ?es) ! 1) = 0"
    by (simp add: reserve_op_def lamp_def sold_out_def want_def js_eval)
  have r: "reduceStock [lamp, sold_out] ?es =
      (Inl (ReservationFailed 3), [lamp\<lparr>stock := 2\<rparr>, sold_out])"
    by (simp add: reduceStock_def reserve_op_def lamp_def sold_out_def want_def js_eval)
  have t: "reserved_stock ?es 1 5 = 2"
    by (simp add: lamp_def sold_out_def want_def js_eval)
  have s: "stock_of [lamp, sold_out] 1 = Some 5"
    by (simp add: stock_of_def lamp_def)
  have p: "postOrder shop (Some 42) [\<lparr>productId = 9, req_quantity = 1\<rparr>] [] 5000 =
      (Inl ProductsNotFound, shop)"
    by (simp add: postOrder_def calculateTotalAndCheckStock_def find_in_def shop_def
        lamp_def vase_def)
  from reduceStock_failure_no_rollback [where ps = "[lamp, sold_out]" and es = ?es and k = 1
      and err = "ReservationFailed 3" and ps' = "[lamp\<lparr>stock := 2\<rparr>, sold_out]"
      and st = shop and c = "Some 42" and its = "[\<lparr>productId = 9, req_quantity = 1\<rparr>]"
      and addr = "[]" and now = 5000 and err' = ProductsNotFound and st' = shop] d k m r t s p
  show ?thesis by simp
qed

text \<open>
  The reservation of three lamps and one clock, when the last clock went after the stock
  check: the call fails naming the clock, and the lamps stay reserved. Likewise an order
  of two lamps and zero vases passes the stock check and the reservation, is rejected by
  the schema, and leaves the two lamps reserved.
\<close>

theorem reduceStock_partial_failure_counterexample:
  "reduceStock [lamp, sold_out] [want lamp 3, want (sold_out\<lparr>stock := 1\<rparr>) 1] =
     (Inl (ReservationFailed 3), [lamp\<lparr>stock := 2\<rparr>, sold_out]) \<and>
   stock_of [lamp, sold_out] 1 = Some 5 \<and>
   stock_of [lamp\<lparr>stock := 2\<rparr>, sold_out] 1 = Some 2 \<and>
   postOrder shop (Some 42) [\<lparr>productId = 1, req_quantity = 2\<rparr>, \<lparr>productId = 2, req_quantity = 0\<rparr>]
       [] 5000 =
     (Inl SchemaValidationError, shop\<lparr>products := [lamp\<lparr>stock := 1\<rparr>, vase]\<rparr>)"
  by (simp add: reduceStock_def reserve_op_def lamp_def vase_def sold_out_def want_def stock_of_def
      shop_def placed_def postOrder_def calculateTotalAndCheckStock_def find_in_def
      validate_order_def order_lines_def Let_def js_eval)

section \<open>The update and delete routes\<close>

lemma string_of_status_roundtrip: "status_of_string (string_of_status s) = Some s"
  by (cases s) (simp_all add: status_of_string_def)

lemma string_of_status_cancelled: "string_of_status s = ''cancelled'' \<longleftrightarrow> s = Cancelled"
  by (cases s) simp_all

lemma string_of_status_nonempty: "string_of_status s \<noteq> []"
  by (cases s) simp_all

text \<open>
  C7. For an order whose status is \<open>shipped\<close>, \<open>out_for_delivery\<close> or \<open>delivered\<close>, a
  cancellation (the update route with \<^verbatim>\<open>status: 'cancelled'\<close>, and the delete route) is
  refused with status 400, and the database is left exactly as it was: the order keeps
  its status and no product's stock changes.
\<close>

theorem cancel_blocked_after_shipping:
  assumes "findById (orders st) i = Some ord"
    and "status ord = Shipped \<or> status ord = OutForDelivery \<or> status ord = Delivered"
  shows "cancelOrder st i now = (Inl InvalidTransition_cancel, st) \<and>
         deleteOrder st i now = (Inl InvalidTransition_delete, st)"
  using assms by (auto simp: cancelOrder_def putOrder_def deleteOrder_def shipped_or_later_def)

theorem cancel_blocked_after_shipping_witness:
  "findById (orders (shop\<lparr>orders := [placed\<lparr>status := Shipped\<rparr>]\<rparr>)) 7 =
     Some (placed\<lparr>status := Shipped\<rparr>) \<and>
   cancelOrder (shop\<lparr>orders := [placed\<lparr>status := Shipped\<rparr>]\<rparr>) 7 2000 =
     (Inl InvalidTransition_cancel, shop\<lparr>orders := [placed\<lparr>status := Shipped\<rparr>]\<rparr>) \<and>
   deleteOrder (shop\<lparr>orders := [placed\<lparr>status := Shipped\<rparr>]\<rparr>) 7 2000 =
     (Inl InvalidTransition_delete, shop\<lparr>orders := [placed\<lparr>status := Shipped\<rparr>]\<rparr>)"
proof -
  have f: "findById (orders (shop\<lparr>orders := [placed\<lparr>status := Shipped\<rparr>]\<rparr>)) 7 =
     Some (placed\<lparr>status := Shipped\<rparr>)"
    by (simp add: findById_def placed_def)
  have s: "status (placed\<lparr>status := Shipped\<rparr>) = Shipped \<or>
      status (placed\<lparr>status := Shipped\<rparr>) = OutForDelivery \<or>
      status (placed\<lparr>status := Shipped\<rparr>) = Delivered"
    by simp
  from cancel_blocked_after_shipping [OF f s, of 2000] f show ?thesis by simp
qed

text \<open>
  C8 (as the code has it). For every existing order and every status of the enum other
  than \<open>cancelled\<close>, \<open>setStatus\<close> succeeds whatever the order's current status is: the
  order is stored with the new status, and no product changes. No edge of the state
  machine is checked on this path.
\<close>

theorem setStatus_unconditional:
  assumes "findById (orders st) i = Some ord" and "s \<noteq> Cancelled"
  shows "setStatus st i s now =
           (Inr (StatusUpdated i s),
            st\<lparr>orders := save_order (ord\<lparr>status := s, updatedAt := now\<rparr>) (orders st)\<rparr>) \<and>
         findById (orders (snd (setStatus st i s now))) i = Some (ord\<lparr>status := s, updatedAt := now\<rparr>) \<and>
         products (snd (setStatus st i s now)) = products st"
proof -
  have o: "oid ord = i" using assms(1) by (rule findById_oid)
  have 1: "setStatus st i s now =
           (Inr (StatusUpdated i s),
            st\<lparr>orders := save_order (ord\<lparr>status := s, updatedAt := now\<rparr>) (orders st)\<rparr>)"
    using assms o
    by (simp add: setStatus_def putOrder_def string_of_status_cancelled
        string_of_status_nonempty string_of_status_roundtrip)
  have 2: "findById (save_order (ord\<lparr>status := s, updatedAt := now\<rparr>) (orders st)) i =
      Some (ord\<lparr>status := s, updatedAt := now\<rparr>)"
    using assms(1) o by (intro findById_save_order) simp_all
  from 1 2 show ?thesis by simp
qed

theorem setStatus_unconditional_witness:
  "findById (orders (shop\<lparr>orders := [placed\<lparr>status := Delivered\<rparr>]\<rparr>)) 7 =
     Some (placed\<lparr>status := Delivered\<rparr>) \<and>
   setStatus (shop\<lparr>orders := [placed\<lparr>status := Delivered\<rparr>]\<rparr>) 7 Pending 2000 =
     (Inr (StatusUpdated 7 Pending),
      shop\<lparr>orders := [placed\<lparr>status := Pending, updatedAt := 2000\<rparr>]\<rparr>)"
proof -
  have f: "findById (orders (shop\<lparr>orders := [placed\<lparr>status := Delivered\<rparr>]\<rparr>)) 7 =
     Some (placed\<lparr>status := Delivered\<rparr>)"
    by (simp add: findById_def placed_def)
  have n: "Pending \<noteq> Cancelled" by simp
  from setStatus_unconditional [OF f n, of 2000] f show ?thesis
    by (simp add: save_order_def placed_def)
qed

text \<open>
  The status \<open>cancelled\<close> never reaches the generic branch: the update route sends it to
  the cancel branch, which refuses it for an order that is already shipped.
\<close>

theorem setStatus_cancelled_counterexample:
  "setStatus (shop\<lparr>orders := [placed\<lparr>status := Shipped\<rparr>]\<rparr>) 7 Cancelled 2000 =
     (Inl InvalidTransition_cancel, shop\<lparr>orders := [placed\<lparr>status := Shipped\<rparr>]\<rparr>)"
  by (simp add: setStatus_def putOrder_def findById_def shipped_or_later_def placed_def)

text \<open>
  C2. The claim is that a second cancellation of an order that is already \<open>cancelled\<close>
  fails and releases no stock. The guard of both cancellation routes names only the three
  shipped states, so the code does otherwise: the order of two lamps is cancelled, which
  gives the two lamps back (stock 3 becomes 5); the second cancellation of the same
  order, on either route, is answered with success and gives the two lamps back again
  (stock 7).
\<close>

theorem cancel_twice_releases_twice:
  "cancelOrder shop 7 2000 =
     (Inr (StatusUpdated 7 Cancelled),
      shop\<lparr>products := [lamp, vase],
           orders := [placed\<lparr>status := Cancelled, updatedAt := 2000\<rparr>]\<rparr>) \<and>
   cancelOrder (shop\<lparr>products := [lamp, vase],
                     orders := [placed\<lparr>status := Cancelled, updatedAt := 2000\<rparr>]\<rparr>) 7 3000 =
     (Inr (StatusUpdated 7 Cancelled),
      shop\<lparr>products := [lamp\<lparr>stock := 7\<rparr>, vase],
           orders := [placed\<lparr>status := Cancelled, updatedAt := 3000\<rparr>]\<rparr>) \<and>
   deleteOrder (shop\<lparr>products := [lamp, vase],
                     orders := [placed\<lparr>status := Cancelled, updatedAt := 2000\<rparr>]\<rparr>) 7 3000 =
     (Inr (StatusUpdated 7 Cancelled),
      shop\<lparr>products := [lamp\<lparr>stock := 7\<rparr>, vase],
           orders := [placed\<lparr>status := Cancelled, updatedAt := 2000\<rparr>]\<rparr>)"
  by (simp add: cancelOrder_def putOrder_def deleteOrder_def findById_def shipped_or_later_def
      placed_def shop_def lamp_def vase_def save_order_def restore_pairs_def restore_op_def js_eval)

section \<open>Release on cancellation\<close>





section \<open>Validation of the requested items\<close>

lemma find_in_length:
  assumes "distinct (map pid ps)"
  shows "length (find_in ps ids) \<le> card (set ids)"
proof -
  have d: "distinct (map pid (find_in ps ids))"
    unfolding find_in_def using assms by (rule distinct_map_filter)
  have "length (find_in ps ids) = card (set (map pid (find_in ps ids)))"
    using distinct_card [OF d] by simp
  also have "\<dots> \<le> card (set ids)"
    by (rule card_mono) (auto simp: find_in_def)
  finally show ?thesis .
qed

text \<open>
  C10. When two items of a request name the same product, \<^verbatim>\<open>calculateTotalAndCheckStock\<close>
  throws \<^verbatim>\<open>One or more products not found\<close>, whether or not the products exist with enough
  stock: the documents found are at most as many as the distinct identifiers, fewer than
  the items. The create handler then answers with that error and leaves the database as it
  was, so no stock changes and no order is stored.
\<close>

theorem duplicate_items_rejected:
  assumes "distinct (map pid (products st))" and "\<not> distinct (map productId its)" and "c \<noteq> 0"
  shows "calculateTotalAndCheckStock (products st) its = Inl ProductsNotFound \<and>
         postOrder st (Some c) its addr now = (Inl ProductsNotFound, st)"
proof -
  let ?ids = "map productId its"
  have "card (set ?ids) \<noteq> length ?ids"
    using assms(2) card_distinct by blast
  with card_length [of ?ids] have "card (set ?ids) < length ?ids" by simp
  with find_in_length [OF assms(1), of ?ids]
  have "length (find_in (products st) ?ids) \<noteq> length ?ids" by simp
  then have 1: "calculateTotalAndCheckStock (products st) its = Inl ProductsNotFound"
    by (simp add: calculateTotalAndCheckStock_def Let_def)
  from assms(2) have "its \<noteq> []" by auto
  with 1 assms(3) show ?thesis by (simp add: postOrder_def)
qed

theorem duplicate_items_rejected_witness:
  "distinct (map pid (products shop)) \<and>
   \<not> distinct (map productId [\<lparr>productId = 1, req_quantity = 1\<rparr>, \<lparr>productId = 1, req_quantity = 1\<rparr>]) \<and>
   stock_of (products shop) 1 = Some 3 \<and>
   postOrder shop (Some 42) [\<lparr>productId = 1, req_quantity = 1\<rparr>, \<lparr>productId = 1, req_quantity = 1\<rparr>]
     [] 5000 = (Inl ProductsNotFound, shop)"
proof -
  have d: "distinct (map pid (products shop))"
    by (simp add: shop_def lamp_def vase_def)
  have n: "\<not> distinct (map productId [\<lparr>productId = 1, req_quantity = 1\<rparr>, \<lparr>productId = 1, req_quantity = 1\<rparr>])"
    by simp
  have c: "(42::int) \<noteq> 0" by simp
  have s: "stock_of (products shop) 1 = Some 3"
    by (simp add: stock_of_def shop_def lamp_def)
  from duplicate_items_rejected [OF d n c, of "[]" 5000] d n s show ?thesis by simp
qed

section \<open>Creating an order\<close>

lemma enrich_Inr:
  "enrich found its t0 = Inr (tot, es) \<Longrightarrow>
   map e_quantity es = map req_quantity its \<and>
   map (\<lambda>e. pid (e_product e)) es = map productId its \<and>
   (\<forall>e \<in> set es. e_product e \<in> set found \<and> e_priceAtPurchase e = price (e_product e)) \<and>
   tot = sum_lines t0 (order_lines es)"
proof (induction its arbitrary: t0 tot es)
  case Nil
  then show ?case by (simp add: order_lines_def)
next
  case (Cons item rest)
  from Cons.prems obtain p es' where
    p: "find (\<lambda>pp. pid pp = productId item) found = Some p"
    and r: "enrich found rest (js_add t0 (js_mul (price p) (req_quantity item))) = Inr (tot, es')"
    and es: "es = \<lparr>e_product = p, e_quantity = req_quantity item, e_priceAtPurchase = price p\<rparr> # es'"
    by (auto split: option.splits if_splits sum.splits)
  from p have pf: "p \<in> set found" "pid p = productId item"
    by (auto simp: find_Some_iff)
  from Cons.IH [OF r] pf es show ?case by (simp add: order_lines_def)
qed

lemma calculate_Inr:
  assumes "calculateTotalAndCheckStock ps its = Inr (tot, es)"
  shows "map e_quantity es = map req_quantity its"
    and "\<forall>e \<in> set es. e_product e \<in> set ps \<and> e_priceAtPurchase e = price (e_product e)"
    and "tot = items_total (order_lines es)"
proof -
  from assms have e: "enrich (find_in ps (map productId its)) its 0 = Inr (tot, es)"
    by (simp add: calculateTotalAndCheckStock_def Let_def split: if_splits)
  from enrich_Inr [OF e] show "map e_quantity es = map req_quantity its" by simp
  from enrich_Inr [OF e] show "\<forall>e \<in> set es. e_product e \<in> set ps \<and> e_priceAtPurchase e = price (e_product e)"
    by (auto simp: find_in_def)
  from enrich_Inr [OF e] show "tot = items_total (order_lines es)"
    by (simp add: items_total_def)
qed

lemma sum_lines_nonneg:
  "0 \<le> t \<Longrightarrow> \<forall>it \<in> set its. 0 \<le> priceAtPurchase it \<and> 0 \<le> quantity it \<Longrightarrow>
   0 \<le> sum_lines t its"
proof (induction its arbitrary: t)
  case Nil
  then show ?case by simp
next
  case (Cons it its)
  from Cons.prems have "0 \<le> priceAtPurchase it * quantity it" by simp
  then have "0 \<le> js_mul (priceAtPurchase it) (quantity it)"
    unfolding js_mul_def by (rule js_round_nonneg)
  with Cons.prems(1) have "0 \<le> js_add t (js_mul (priceAtPurchase it) (quantity it))"
    unfolding js_add_def by (intro js_round_nonneg) simp
  from Cons.IH [OF this] Cons.prems(2) show ?case by simp
qed

lemma validate_new_order:
  assumes "calculateTotalAndCheckStock ps its = Inr (tot, es)"
    and "\<forall>it \<in> set its. 1 \<le> req_quantity it" and "\<forall>p \<in> set ps. 0 \<le> price p"
  shows "validate_order \<lparr>oid = n, customerId = c, items = order_lines es, totalAmount = tot,
           shippingAddress = addr, status = s, createdAt = t1, updatedAt = t2,
           estimatedDelivery = t3\<rparr>"
proof -
  note c = calculate_Inr [OF assms(1)]
  have q: "\<forall>e \<in> set es. 1 \<le> e_quantity e"
  proof
    fix e assume "e \<in> set es"
    then have "e_quantity e \<in> set (map e_quantity es)" by simp
    with c(1) have "e_quantity e \<in> set (map req_quantity its)" by simp
    with assms(2) show "1 \<le> e_quantity e" by auto
  qed
  have pr: "\<forall>e \<in> set es. 0 \<le> e_priceAtPurchase e"
    using c(2) assms(3) by auto
  have "\<forall>it \<in> set (order_lines es). 0 \<le> priceAtPurchase it \<and> 0 \<le> quantity it"
    using q pr by (fastforce simp: order_lines_def)
  then have "0 \<le> sum_lines 0 (order_lines es)"
    by (intro sum_lines_nonneg) simp_all
  with c(3) have "0 \<le> tot" by (simp add: items_total_def)
  with q pr show ?thesis
    by (simp add: validate_order_def order_lines_def list_all_iff)
qed

text \<open>
  C6 (as the code has it). When the create handler is called with a customer identifier
  that is present and not zero and with a non-empty item list, the stock check and the
  reservation both succeed, every requested quantity is at least 1 and no stored product
  has a negative price, then the order is stored with status \<open>confirmed\<close>, with the
  estimated delivery five days (in milliseconds) after the clock the handler read, and the
  answer carries the order's identifier, its status and its total amount.
\<close>

theorem createOrder_success:
  assumes "c \<noteq> 0" and "its \<noteq> []"
    and "calculateTotalAndCheckStock (products st) its = Inr (tot, enriched)"
    and "reduceStock (products st) enriched = (Inr (), ps')"
    and "\<forall>it \<in> set its. 1 \<le> req_quantity it"
    and "\<forall>p \<in> set (products st). 0 \<le> price p"
  shows "postOrder st (Some c) its addr now =
           (Inr (OrderCreated (next_id st) Confirmed tot),
            st\<lparr>products := ps',
               orders := orders st @
                 [\<lparr>oid = next_id st, customerId = c, items = order_lines enriched,
                   totalAmount = tot, shippingAddress = addr, status = Confirmed,
                   createdAt = now, updatedAt = now,
                   estimatedDelivery = now + 5 * 24 * 60 * 60 * 1000\<rparr>],
               next_id := Suc (next_id st)\<rparr>)"
  using assms validate_new_order [OF assms(3,5,6)]
  by (simp add: postOrder_def five_days_def)

theorem createOrder_success_witness:
  "calculateTotalAndCheckStock (products shop) [\<lparr>productId = 2, req_quantity = 3\<rparr>] =
     Inr (900, [want vase 3]) \<and>
   reduceStock (products shop) [want vase 3] =
     (Inr (), [lamp\<lparr>stock := 3\<rparr>, vase\<lparr>stock := 1\<rparr>]) \<and>
   postOrder shop (Some 42) [\<lparr>productId = 2, req_quantity = 3\<rparr>] ''5 Quay St'' 5000 =
     (Inr (OrderCreated 8 Confirmed 900),
      shop\<lparr>products := [lamp\<lparr>stock := 3\<rparr>, vase\<lparr>stock := 1\<rparr>],
           orders := [placed,
             \<lparr>oid = 8, customerId = 42,
              items = [\<lparr>item_product = 2, quantity = 3, priceAtPurchase = 300\<rparr>],
              totalAmount = 900, shippingAddress = ''5 Quay St'', status = Confirmed,
              createdAt = 5000, updatedAt = 5000, estimatedDelivery = 432005000\<rparr>],
           next_id := 9\<rparr>)"
proof -
  have c: "(42::int) \<noteq> 0" and i: "[\<lparr>productId = 2, req_quantity = 3\<rparr>] \<noteq> []"
    by simp_all
  have v: "calculateTotalAndCheckStock (products shop) [\<lparr>productId = 2, req_quantity = 3\<rparr>] =
     Inr (900, [want vase 3])"
    by (simp add: calculateTotalAndCheckStock_def find_in_def shop_def lamp_def vase_def want_def
        js_eval)
  have r: "reduceStock (products shop) [want vase 3] =
     (Inr (), [lamp\<lparr>stock := 3\<rparr>, vase\<lparr>stock := 1\<rparr>])"
    by (simp add: reduceStock_def reserve_op_def shop_def lamp_def vase_def want_def js_eval)
  have q: "\<forall>it \<in> set [\<lparr>productId = 2, req_quantity = 3\<rparr>]. 1 \<le> req_quantity it"
    by simp
  have p: "\<forall>p \<in> set (products shop). 0 \<le> price p"
    by (simp add: shop_def lamp_def vase_def)
  from createOrder_success [OF c i v r q p, of "''5 Quay St''" 5000] v r show ?thesis
    by (simp add: shop_def order_lines_def want_def vase_def)
qed

text \<open>
  A request for zero vases passes the stock check and the reservation, and the schema
  then rejects the order (\<^verbatim>\<open>quantity\<close> has \<^verbatim>\<open>min: 1\<close>): no order is stored.
\<close>

theorem createOrder_zero_quantity_counterexample:
  "calculateTotalAndCheckStock (products shop) [\<lparr>productId = 2, req_quantity = 0\<rparr>] =
     Inr (0, [want vase 0]) \<and>
   reduceStock (products shop) [want vase 0] = (Inr (), products shop) \<and>
   postOrder shop (Some 42) [\<lparr>productId = 2, req_quantity = 0\<rparr>] ''5 Quay St'' 5000 =
     (Inl SchemaValidationError, shop)"
  by (simp add: calculateTotalAndCheckStock_def find_in_def shop_def lamp_def vase_def want_def
      reduceStock_def reserve_op_def postOrder_def validate_order_def order_lines_def js_eval)

section \<open>The invariant of the database\<close>

lemma updateOne_preserves:
  "\<forall>d \<in> set ds. P d \<Longrightarrow> (\<And>d. P d \<Longrightarrow> flt d \<Longrightarrow> P (upd d)) \<Longrightarrow>
   \<forall>d \<in> set (snd (updateOne flt upd ds)). P d"
  by (induction ds) (auto split: prod.splits)

lemma js_sub_nonneg: "q \<le> s \<Longrightarrow> 0 \<le> js_add s (- q)"
  unfolding js_add_def by (rule js_round_nonneg) simp

lemma js_add_nonneg: "0 \<le> s \<Longrightarrow> 0 \<le> q \<Longrightarrow> 0 \<le> js_add s q"
  unfolding js_add_def by (rule js_round_nonneg) simp

lemma reserve_op_nonneg:
  assumes "\<forall>p \<in> set ps. 0 \<le> stock p"
  shows "\<forall>p \<in> set (snd (reserve_op ps e)). 0 \<le> stock p"
  unfolding reserve_op_def
  by (rule updateOne_preserves [OF assms]) (simp add: js_sub_nonneg)

lemma reserve_ops_nonneg:
  "\<forall>p \<in> set ps. 0 \<le> stock p \<Longrightarrow>
   \<forall>p \<in> set (snd (reserve_ops ps es)). 0 \<le> stock p"
proof (induction es arbitrary: ps)
  case Nil
  then show ?case by simp
next
  case (Cons e es)
  show ?case unfolding reserve_ops_Cons
    using Cons.IH [OF reserve_op_nonneg [OF Cons.prems]] by simp
qed

lemma restore_op_nonneg:
  assumes "\<forall>p \<in> set ps. 0 \<le> stock p" and "0 \<le> snd it"
  shows "\<forall>p \<in> set (restore_op ps it). 0 \<le> stock p"
  unfolding restore_op_def
  by (rule updateOne_preserves [OF assms(1)]) (use assms(2) in \<open>simp add: js_add_nonneg\<close>)

lemma restoreStock_nonneg:
  "\<forall>p \<in> set ps. 0 \<le> stock p \<Longrightarrow> \<forall>it \<in> set its. 0 \<le> snd it \<Longrightarrow>
   \<forall>p \<in> set (restoreStock ps its). 0 \<le> stock p"
proof (induction its arbitrary: ps)
  case Nil
  then show ?case by simp
next
  case (Cons it its)
  from Cons.prems have "\<forall>p \<in> set (restore_op ps it). 0 \<le> stock p"
    by (intro restore_op_nonneg) simp_all
  with Cons show ?case by simp
qed

lemma save_order_set: "set (save_order ord' os) \<subseteq> insert ord' (set os)"
  unfolding save_order_def by (induction os) (auto split: prod.splits)

lemma save_order_core:
  assumes "findById os i = Some ord" and "order_core ord' = order_core ord"
  shows "map order_core (save_order ord' os) = map order_core os"
proof -
  have "oid ord = i" by (rule findById_oid [OF assms(1)])
  with assms have "find (\<lambda>d. oid d = oid ord') os = Some ord"
    by (simp add: findById_def order_core_def)
  then show ?thesis
    using assms(2) unfolding save_order_def
    by (induction os) (auto simp: order_core_def split: if_splits prod.splits)
qed

lemma putOrder_core:
  "map order_core (orders (snd (putOrder st i s addr now))) = map order_core (orders st)"
proof (cases "findById (orders st) i")
  case None
  then show ?thesis by (simp add: putOrder_def)
next
  case (Some ord)
  have "map order_core (save_order (ord\<lparr>status := x, updatedAt := now\<rparr>) (orders st)) =
      map order_core (orders st)" for x
    by (rule save_order_core [OF Some]) (simp add: order_core_def)
  moreover have "map order_core (save_order (ord\<lparr>shippingAddress := addr, updatedAt := now\<rparr>) (orders st)) =
      map order_core (orders st)"
    by (rule save_order_core [OF Some]) (simp add: order_core_def)
  ultimately show ?thesis using Some
    by (simp add: putOrder_def split: option.splits)
qed

lemma deleteOrder_core:
  "map order_core (orders (snd (deleteOrder st i now))) = map order_core (orders st)"
proof (cases "findById (orders st) i")
  case None
  then show ?thesis by (simp add: deleteOrder_def)
next
  case (Some ord)
  have "map order_core (save_order (ord\<lparr>status := Cancelled, updatedAt := now\<rparr>) (orders st)) =
      map order_core (orders st)"
    by (rule save_order_core [OF Some]) (simp add: order_core_def)
  moreover have "map order_core (save_order ord (orders st)) = map order_core (orders st)"
    by (rule save_order_core [OF Some]) simp
  ultimately show ?thesis using Some
    by (simp add: deleteOrder_def)
qed

lemma postOrder_orders:
  "orders (snd (postOrder st c its addr now)) = orders st \<or>
   (\<exists>ord. orders (snd (postOrder st c its addr now)) = orders st @ [ord])"
  by (auto simp: postOrder_def Let_def split: option.splits sum.splits prod.splits)

lemma step_core:
  "take (length (orders st)) (map order_core (orders (step st ev))) = map order_core (orders st)"
proof (cases ev)
  case (CreateProduct nm pr stk)
  then show ?thesis by (simp add: createProduct_def Let_def)
next
  case Seed
  then show ?thesis by (simp add: seed_def Let_def)
next
  case (PostOrder c its addr now)
  with postOrder_orders [of st c its addr now] show ?thesis by auto
next
  case (PutOrder i s addr now)
  then show ?thesis using putOrder_core [of st i s addr now]
    by (metis length_map step.simps(4) take_all_iff order_refl)
next
  case (DeleteOrder i now)
  then show ?thesis using deleteOrder_core [of st i now]
    by (metis length_map step.simps(5) take_all_iff order_refl)
qed


lemma postOrder_cases:
  "snd (postOrder st c its addr now) = st \<or>
   (\<exists>tot es. calculateTotalAndCheckStock (products st) its = Inr (tot, es) \<and>
      (snd (postOrder st c its addr now) = st\<lparr>products := snd (reduceStock (products st) es)\<rparr> \<or>
       (\<exists>ord. validate_order ord \<and> items ord = order_lines es \<and> totalAmount ord = tot \<and>
          snd (postOrder st c its addr now) =
            st\<lparr>products := snd (reduceStock (products st) es),
               orders := orders st @ [ord], next_id := Suc (next_id st)\<rparr>)))"
proof (cases c)
  case None
  then show ?thesis by (simp add: postOrder_def)
next
  case (Some cid)
  show ?thesis
  proof (cases "cid = 0 \<or> its = []")
    case True
    with Some show ?thesis by (auto simp: postOrder_def)
  next
    case False
    show ?thesis
    proof (cases "calculateTotalAndCheckStock (products st) its")
      case (Inl e)
      with Some False show ?thesis by (simp add: postOrder_def)
    next
      case (Inr r)
      obtain tot es where r: "r = (tot, es)" by (cases r)
      obtain res ps' where rs: "reduceStock (products st) es = (res, ps')"
        by (cases "reduceStock (products st) es")
      show ?thesis
      proof (cases res)
        case (Inl e)
        with Some False Inr r rs show ?thesis by (simp add: postOrder_def)
      next
        case (Inr u)
        let ?ord = "\<lparr>oid = next_id st, customerId = cid, items = order_lines es,
            totalAmount = tot, shippingAddress = addr, status = Confirmed, createdAt = now,
            updatedAt = now, estimatedDelivery = now + five_days\<rparr>"
        show ?thesis
        proof (cases "validate_order ?ord")
          case True
          have "snd (postOrder st c its addr now) =
              st\<lparr>products := snd (reduceStock (products st) es),
                 orders := orders st @ [?ord], next_id := Suc (next_id st)\<rparr>"
            using Some False \<open>calculateTotalAndCheckStock (products st) its = Inr r\<close> r rs Inr True
            by (simp add: postOrder_def)
          with True \<open>calculateTotalAndCheckStock (products st) its = Inr r\<close> r show ?thesis
            by (intro disjI2 exI [of _ tot] exI [of _ es] conjI exI [of _ ?ord]) simp_all
        next
          case F: False
          have "snd (postOrder st c its addr now) =
              st\<lparr>products := snd (reduceStock (products st) es)\<rparr>"
            using Some False \<open>calculateTotalAndCheckStock (products st) its = Inr r\<close> r rs Inr F
            by (simp add: postOrder_def)
          with \<open>calculateTotalAndCheckStock (products st) its = Inr r\<close> r show ?thesis
            by blast
        qed
      qed
    qed
  qed
qed

lemma reduceStock_nonneg:
  "\<forall>p \<in> set ps. 0 \<le> stock p \<Longrightarrow> \<forall>p \<in> set (snd (reduceStock ps es)). 0 \<le> stock p"
  using reserve_ops_nonneg [of ps es] by (simp add: reduceStock_snd)

lemma validate_order_quantities:
  "validate_order ord \<Longrightarrow> \<forall>it \<in> set (items ord). 1 \<le> quantity it"
  by (simp add: validate_order_def list_all_iff)

lemma createProduct_ok: "db_ok st \<Longrightarrow> db_ok (snd (createProduct st nm pr stk))"
  by (auto simp: db_ok_def createProduct_def Let_def validate_product_def)

lemma seed_ok: "db_ok st \<Longrightarrow> db_ok (snd (seed st))"
  by (simp add: db_ok_def seed_def sample_def Let_def)

lemma postOrder_ok:
  assumes "db_ok st"
  shows "db_ok (snd (postOrder st c its addr now))"
proof -
  from assms have p: "\<forall>p \<in> set (products st). 0 \<le> stock p" by (simp add: db_ok_def)
  have p': "\<forall>p \<in> set (snd (reduceStock (products st) es)). 0 \<le> stock p" for es
    by (rule reduceStock_nonneg [OF p])
  from postOrder_cases [of st c its addr now] show ?thesis
  proof (elim disjE exE conjE)
    assume "snd (postOrder st c its addr now) = st"
    with assms show ?thesis by simp
  next
    fix tot es
    assume "snd (postOrder st c its addr now) = st\<lparr>products := snd (reduceStock (products st) es)\<rparr>"
    with assms p' [of es] show ?thesis by (simp add: db_ok_def)
  next
    fix tot es ord
    assume c: "calculateTotalAndCheckStock (products st) its = Inr (tot, es)"
      and v: "validate_order ord" and i: "items ord = order_lines es" and t: "totalAmount ord = tot"
      and s: "snd (postOrder st c its addr now) =
            st\<lparr>products := snd (reduceStock (products st) es),
               orders := orders st @ [ord], next_id := Suc (next_id st)\<rparr>"
    have "totalAmount ord = items_total (items ord)"
      using calculate_Inr(3) [OF c] i t by simp
    with assms p' [of es] validate_order_quantities [OF v] s show ?thesis
      by (simp add: db_ok_def)
  qed
qed

lemma cancel_write_ok:
  assumes "db_ok st" and "findById (orders st) i = Some ord"
    and "items ord' = items ord" and "totalAmount ord' = totalAmount ord"
  shows "db_ok (st\<lparr>products := restoreStock (products st) (restore_pairs (items ord)),
                   orders := save_order ord' (orders st)\<rparr>)"
    and "db_ok (st\<lparr>orders := save_order ord' (orders st)\<rparr>)"
proof -
  have m: "ord \<in> set (orders st)" by (rule findById_mem [OF assms(2)])
  with assms(1) have q: "\<forall>it \<in> set (items ord). 1 \<le> quantity it"
    and t: "totalAmount ord = items_total (items ord)"
    by (auto simp: db_ok_def)
  from q have "\<forall>it \<in> set (restore_pairs (items ord)). 0 \<le> snd it"
    by (auto simp: restore_pairs_def)
  with assms(1) have p: "\<forall>p \<in> set (restoreStock (products st) (restore_pairs (items ord))). 0 \<le> stock p"
    by (intro restoreStock_nonneg) (simp_all add: db_ok_def)
  have o: "\<forall>x \<in> set (save_order ord' (orders st)).
        (\<forall>it \<in> set (items x). 1 \<le> quantity it) \<and> totalAmount x = items_total (items x)"
  proof
    fix x assume "x \<in> set (save_order ord' (orders st))"
    with save_order_set have "x = ord' \<or> x \<in> set (orders st)" by blast
    then show "(\<forall>it \<in> set (items x). 1 \<le> quantity it) \<and> totalAmount x = items_total (items x)"
      using assms(1,3,4) q t by (auto simp: db_ok_def)
  qed
  from p o show "db_ok (st\<lparr>products := restoreStock (products st) (restore_pairs (items ord)),
                   orders := save_order ord' (orders st)\<rparr>)"
    by (simp add: db_ok_def)
  from assms(1) o show "db_ok (st\<lparr>orders := save_order ord' (orders st)\<rparr>)"
    by (simp add: db_ok_def)
qed

lemma putOrder_ok:
  assumes "db_ok st"
  shows "db_ok (snd (putOrder st i s addr now))"
proof (cases "findById (orders st) i")
  case None
  with assms show ?thesis by (simp add: putOrder_def)
next
  case (Some ord)
  note w = cancel_write_ok [OF assms Some]
  have 1: "db_ok (st\<lparr>products := restoreStock (products st) (restore_pairs (items ord)),
      orders := save_order (ord\<lparr>status := Cancelled, updatedAt := now\<rparr>) (orders st)\<rparr>)"
    by (rule w(1)) simp_all
  have 2: "db_ok (st\<lparr>orders := save_order (ord\<lparr>shippingAddress := addr, updatedAt := now\<rparr>) (orders st)\<rparr>)"
    by (rule w(2)) simp_all
  have 3: "db_ok (st\<lparr>orders := save_order (ord\<lparr>status := x, updatedAt := now\<rparr>) (orders st)\<rparr>)" for x
    by (rule w(2)) simp_all
  from assms Some 1 2 3 show ?thesis
    by (simp add: putOrder_def split: option.splits)
qed

lemma deleteOrder_ok:
  assumes "db_ok st"
  shows "db_ok (snd (deleteOrder st i now))"
proof (cases "findById (orders st) i")
  case None
  with assms show ?thesis by (simp add: deleteOrder_def)
next
  case (Some ord)
  have "db_ok (st\<lparr>products := restoreStock (products st) (restore_pairs (items ord)),
      orders := save_order (ord\<lparr>status := Cancelled, updatedAt := now\<rparr>) (orders st)\<rparr>)"
    by (rule cancel_write_ok(1) [OF assms Some]) simp_all
  moreover have "db_ok (st\<lparr>products := restoreStock (products st) (restore_pairs (items ord)),
      orders := save_order ord (orders st)\<rparr>)"
    by (rule cancel_write_ok(1) [OF assms Some]) simp_all
  ultimately show ?thesis using assms Some
    by (simp add: deleteOrder_def)
qed

lemma step_ok: "db_ok st \<Longrightarrow> db_ok (step st ev)"
  by (cases ev) (simp_all add: createProduct_ok seed_ok postOrder_ok putOrder_ok deleteOrder_ok)

lemma foldl_step_ok: "db_ok st \<Longrightarrow> db_ok (foldl step st evs)"
  by (induction evs arbitrary: st) (simp_all add: step_ok)

lemma run_ok: "db_ok (run evs)"
  unfolding run_def by (rule foldl_step_ok) (simp add: db_ok_def init_state_def)


text \<open>In every database a run reaches, \<^verbatim>\<open>_id\<close> is unique among the products.\<close>

lemma ids_ok_same_pids:
  assumes "ids_ok st" and "map pid (products st') = map pid (products st)"
    and "next_id st \<le> next_id st'"
  shows "ids_ok st'"
  using assms unfolding ids_ok_def by (metis less_le_trans)

lemma postOrder_pids:
  "map pid (products (snd (postOrder st c its addr now))) = map pid (products st) \<and>
   next_id st \<le> next_id (snd (postOrder st c its addr now))"
  using postOrder_cases [of st c its addr now]
  by (auto simp: reduceStock_snd reserve_ops_pids)

lemma putOrder_pids:
  "map pid (products (snd (putOrder st i s addr now))) = map pid (products st) \<and>
   next_id (snd (putOrder st i s addr now)) = next_id st"
  by (simp add: putOrder_def restoreStock_pids Let_def split: option.splits)

lemma deleteOrder_pids:
  "map pid (products (snd (deleteOrder st i now))) = map pid (products st) \<and>
   next_id (snd (deleteOrder st i now)) = next_id st"
  by (simp add: deleteOrder_def restoreStock_pids Let_def split: option.splits)

lemma createProduct_ids: "ids_ok st \<Longrightarrow> ids_ok (snd (createProduct st nm pr stk))"
  by (auto simp: ids_ok_def createProduct_def Let_def less_Suc_eq)

lemma seed_ids: "ids_ok (snd (seed st))"
  by (simp add: ids_ok_def seed_def sample_def Let_def)

lemma step_ids: "ids_ok st \<Longrightarrow> ids_ok (step st ev)"
proof (cases ev)
  case (CreateProduct nm pr stk)
  assume "ids_ok st"
  with CreateProduct show ?thesis by (simp add: createProduct_ids)
next
  case Seed
  then show ?thesis by (simp add: seed_ids)
next
  case (PostOrder c its addr now)
  assume "ids_ok st"
  with PostOrder postOrder_pids [of st c its addr now] show ?thesis
    by (auto intro: ids_ok_same_pids)
next
  case (PutOrder i s addr now)
  assume "ids_ok st"
  with PutOrder putOrder_pids [of st i s addr now] show ?thesis
    by (auto intro: ids_ok_same_pids)
next
  case (DeleteOrder i now)
  assume "ids_ok st"
  with DeleteOrder deleteOrder_pids [of st i now] show ?thesis
    by (auto intro: ids_ok_same_pids)
qed

lemma foldl_step_ids: "ids_ok st \<Longrightarrow> ids_ok (foldl step st evs)"
  by (induction evs arbitrary: st) (simp_all add: step_ids)

lemma run_distinct_pids: "distinct (map pid (products (run evs)))"
proof -
  have "ids_ok (run evs)"
    unfolding run_def by (rule foldl_step_ids) (simp add: ids_ok_def init_state_def)
  then show ?thesis by (simp add: ids_ok_def)
qed

section \<open>No oversell\<close>





section \<open>The total of an order\<close>

lemma postOrder_Inr:
  assumes "postOrder st c its addr now = (Inr r, st')"
  shows "\<exists>cid tot es. calculateTotalAndCheckStock (products st) its = Inr (tot, es) \<and>
           orders st' = orders st @
             [\<lparr>oid = next_id st, customerId = cid, items = order_lines es, totalAmount = tot,
               shippingAddress = addr, status = Confirmed, createdAt = now, updatedAt = now,
               estimatedDelivery = now + five_days\<rparr>]"
  using assms
  by (auto simp: postOrder_def Let_def split: option.splits if_splits sum.splits prod.splits)

lemma order_lines_prices:
  assumes "\<forall>e \<in> set es. e_product e \<in> set ps \<and> e_priceAtPurchase e = price (e_product e)"
  shows "\<forall>it \<in> set (order_lines es). \<exists>p \<in> set ps. pid p = item_product it \<and> priceAtPurchase it = price p"
  using assms by (auto simp: order_lines_def)

text \<open>
  C5. After every run of requests from the empty database, the total amount of every
  stored order is the sum over its lines of \<^verbatim>\<open>priceAtPurchase * quantity\<close>, added up as
  the program adds numbers. No request
  changes the identifier, the lines or the total of an order that is already stored: a
  step only appends orders. An order that the create handler stores has that sum as its
  total, and each of its lines carries the price that the product had in the collection
  the handler read.
\<close>

theorem order_total_fixed_at_creation:
  "(\<forall>ord \<in> set (orders (run evs)). totalAmount ord = items_total (items ord)) \<and>
   take (length (orders st)) (map order_core (orders (step st ev))) = map order_core (orders st) \<and>
   (postOrder st c its addr now = (Inr r, st') \<longrightarrow>
      (\<exists>ord. orders st' = orders st @ [ord] \<and> totalAmount ord = items_total (items ord) \<and>
         (\<forall>it \<in> set (items ord).
            \<exists>p \<in> set (products st). pid p = item_product it \<and> priceAtPurchase it = price p)))"
proof (intro conjI impI)
  show "\<forall>ord \<in> set (orders (run evs)). totalAmount ord = items_total (items ord)"
    using run_ok [of evs] by (simp add: db_ok_def)
  show "take (length (orders st)) (map order_core (orders (step st ev))) = map order_core (orders st)"
    by (rule step_core)
next
  assume "postOrder st c its addr now = (Inr r, st')"
  from postOrder_Inr [OF this] obtain cid tot es where
    c: "calculateTotalAndCheckStock (products st) its = Inr (tot, es)"
    and o: "orders st' = orders st @
             [\<lparr>oid = next_id st, customerId = cid, items = order_lines es, totalAmount = tot,
               shippingAddress = addr, status = Confirmed, createdAt = now, updatedAt = now,
               estimatedDelivery = now + five_days\<rparr>]"
    by blast
  let ?ord = "\<lparr>oid = next_id st, customerId = cid, items = order_lines es, totalAmount = tot,
               shippingAddress = addr, status = Confirmed, createdAt = now, updatedAt = now,
               estimatedDelivery = now + five_days\<rparr>"
  have "totalAmount ?ord = items_total (items ?ord)"
    using calculate_Inr(3) [OF c] by simp
  moreover have "\<forall>it \<in> set (items ?ord).
      \<exists>p \<in> set (products st). pid p = item_product it \<and> priceAtPurchase it = price p"
    using order_lines_prices [OF calculate_Inr(2) [OF c]] by simp
  ultimately show "\<exists>ord. orders st' = orders st @ [ord] \<and> totalAmount ord = items_total (items ord) \<and>
         (\<forall>it \<in> set (items ord).
            \<exists>p \<in> set (products st). pid p = item_product it \<and> priceAtPurchase it = price p)"
    using o by blast
qed

theorem order_total_fixed_at_creation_witness:
  "map totalAmount (orders (run [CreateProduct ''Lamp'' 700 5,
       PostOrder (Some 42) [\<lparr>productId = 0, req_quantity = 3\<rparr>] [] 1000,
       PutOrder 1 ''shipped'' [] 2000])) = [2100] \<and>
   map order_core (orders (step shop (PutOrder 7 ''cancelled'' [] 2000))) = [order_core placed] \<and>
   postOrder shop (Some 42) [\<lparr>productId = 2, req_quantity = 3\<rparr>] [] 5000 =
     (Inr (OrderCreated 8 Confirmed 900),
      shop\<lparr>products := [lamp\<lparr>stock := 3\<rparr>, vase\<lparr>stock := 1\<rparr>],
           orders := [placed,
             \<lparr>oid = 8, customerId = 42,
              items = [\<lparr>item_product = 2, quantity = 3, priceAtPurchase = 300\<rparr>],
              totalAmount = 900, shippingAddress = [], status = Confirmed,
              createdAt = 5000, updatedAt = 5000, estimatedDelivery = 432005000\<rparr>],
           next_id := 9\<rparr>)"
proof -
  let ?evs = "[CreateProduct ''Lamp'' 700 5,
       PostOrder (Some 42) [\<lparr>productId = 0, req_quantity = 3\<rparr>] [] 1000,
       PutOrder 1 ''shipped'' [] 2000]"
  have r: "map totalAmount (orders (run ?evs)) = [2100]"
    by (simp add: run_def init_state_def createProduct_def validate_product_def postOrder_def
        calculateTotalAndCheckStock_def find_in_def reduceStock_def reserve_op_def
        validate_order_def order_lines_def Let_def putOrder_def findById_def
        status_of_string_def save_order_def js_eval)
  have l: "length (orders shop) = 1" by (simp add: shop_def)
  have p: "postOrder shop (Some 42) [\<lparr>productId = 2, req_quantity = 3\<rparr>] [] 5000 =
     (Inr (OrderCreated 8 Confirmed 900),
      shop\<lparr>products := [lamp\<lparr>stock := 3\<rparr>, vase\<lparr>stock := 1\<rparr>],
           orders := [placed,
             \<lparr>oid = 8, customerId = 42,
              items = [\<lparr>item_product = 2, quantity = 3, priceAtPurchase = 300\<rparr>],
              totalAmount = 900, shippingAddress = [], status = Confirmed,
              createdAt = 5000, updatedAt = 5000, estimatedDelivery = 432005000\<rparr>],
           next_id := 9\<rparr>)"
    by (simp add: postOrder_def calculateTotalAndCheckStock_def find_in_def reduceStock_def
        reserve_op_def validate_order_def order_lines_def Let_def shop_def lamp_def vase_def
        five_days_def js_eval)
  have k: "map order_core (orders (step shop (PutOrder 7 ''cancelled'' [] 2000))) = [order_core placed]"
    by (simp add: putOrder_def findById_def shop_def placed_def shipped_or_later_def
        save_order_def order_core_def)
  from order_total_fixed_at_creation [where evs = ?evs and st = shop
      and ev = "PutOrder 7 ''cancelled'' [] 2000" and c = "Some 42"
      and its = "[\<lparr>productId = 2, req_quantity = 3\<rparr>]" and addr = "[]" and now = 5000
      and r = "OrderCreated 8 Confirmed 900"
      and st' = "shop\<lparr>products := [lamp\<lparr>stock := 3\<rparr>, vase\<lparr>stock := 1\<rparr>],
           orders := [placed,
             \<lparr>oid = 8, customerId = 42,
              items = [\<lparr>item_product = 2, quantity = 3, priceAtPurchase = 300\<rparr>],
              totalAmount = 900, shippingAddress = [], status = Confirmed,
              createdAt = 5000, updatedAt = 5000, estimatedDelivery = 432005000\<rparr>],
           next_id := 9\<rparr>"] r k p
  show ?thesis by simp
qed

end
